theory Spec2Isabelle
  imports Complex_Main "HOL-Library.Char_ord" "HOL-Library.List_Lexorder" "HOL-Library.FSet"
begin

section \<open>Python errors\<close>

text \<open>
  Every \<^verbatim>\<open>raise\<close>, failed \<^verbatim>\<open>assert\<close>, missing dictionary key and
  out-of-range index of \<^verbatim>\<open>scripts/run_uda_ner.py\<close> is a value of this type; a function
  that may raise returns \<open>py_error + 'a\<close> with \<open>Inl\<close> for the exception.
\<close>

datatype py_error =
  KeyError | IndexError | AssertionError | AttributeError | TypeError | ZeroDivisionError
  | PermissionError | ValueError

section \<open>LabelVocab\<close>

text \<open>
  \<^verbatim>\<open>NERExample\<close> holds the words and their tags. Its third attribute, the back-reference
  \<^verbatim>\<open>label_vocab\<close>, is one object shared by every example read from a file
  (\<^verbatim>\<open>read_ner_examples\<close>), so the vocabulary is threaded through the functions below as an
  explicit state instead of being stored in each example.

  \<^verbatim>\<open>label_set\<close> is a finite set of strings; \<^verbatim>\<open>sorted\<close> on strings is the
  lexicographic order on character codes. \<^verbatim>\<open>labels_dict\<close> is built by inverting
  \<^verbatim>\<open>dict(enumerate(self.labels))\<close>, a later entry overwriting an earlier one.
  \<open>LabelVocab_init\<close> is \<^verbatim>\<open>__init__\<close> and \<open>len_vocab\<close> is \<^verbatim>\<open>__len__\<close>.
\<close>

record NERExample =
  example_tokens :: "string list"
  example_labels :: "string list"

record LabelVocab =
  label_set :: "string fset"
  labels :: "string list"
  labels_dict :: "string \<rightharpoonup> nat"

definition LabelVocab_init :: LabelVocab where
  "LabelVocab_init = \<lparr>label_set = {||}, labels = [], labels_dict = Map.empty\<rparr>"

definition update :: "LabelVocab \<Rightarrow> NERExample \<Rightarrow> LabelVocab" where
  "update v example = v\<lparr>label_set := label_set v |\<union>| fset_of_list (example_labels example)\<rparr>"

definition invert_enumerate :: "string list \<Rightarrow> (string \<rightharpoonup> nat)" where
  "invert_enumerate ls = fold (\<lambda>(k, v) d. d(v \<mapsto> k)) (List.enumerate 0 ls) Map.empty"

definition build :: "LabelVocab \<Rightarrow> LabelVocab" where
  "build v =
     (let ls = ''O'' # sorted_list_of_fset (label_set v |-| {|''O''|})
      in v\<lparr>labels := ls, labels_dict := invert_enumerate ls\<rparr>)"

fun convert_labels_to_ids :: "LabelVocab \<Rightarrow> string list \<Rightarrow> py_error + nat list" where
  "convert_labels_to_ids v [] = Inr []"
| "convert_labels_to_ids v (label # rest) =
     (case labels_dict v label of
        None \<Rightarrow> Inl KeyError
      | Some i \<Rightarrow> (case convert_labels_to_ids v rest of
                    Inl e \<Rightarrow> Inl e
                  | Inr ids \<Rightarrow> Inr (i # ids)))"

fun convert_ids_to_labels :: "LabelVocab \<Rightarrow> nat list \<Rightarrow> py_error + string list" where
  "convert_ids_to_labels v [] = Inr []"
| "convert_ids_to_labels v (label_id # rest) =
     (if label_id < length (labels v)
      then (case convert_ids_to_labels v rest of
              Inl e \<Rightarrow> Inl e
            | Inr ls \<Rightarrow> Inr (labels v ! label_id # ls))
      else Inl IndexError)"

definition len_vocab :: "LabelVocab \<Rightarrow> nat" where
  "len_vocab v = fcard (label_set v)"


section \<open>Examples, tokenizer and features\<close>

text \<open>
  The tokenizer belongs to an external library. It is a parameter here: any function from a
  word to its list of subword pieces, and any function from a piece to its integer id
  (\<^verbatim>\<open>convert_tokens_to_ids\<close> maps it over the list).

  \<^verbatim>\<open>max_seq_length\<close> is a Python integer and may be negative or smaller than two; the
  slice \<^verbatim>\<open>xs[:k]\<close> then counts from the end, which \<open>slice_to\<close> writes out.
  In \<open>loss_mask_loop\<close> the index \<open>i\<close> is always within the mask, which is a copy of
  \<^verbatim>\<open>input_mask\<close> and as long as \<^verbatim>\<open>tokens\<close>.

  \<open>convert_example\<close> is the body of the loop over the examples of
  \<^verbatim>\<open>convert_examples_to_features\<close> and \<open>features_loop\<close> is that loop, which stops at
  the first exception; \<open>sub_token_loop\<close>, \<open>word_loop\<close>, \<open>frame_loop\<close>,
  \<open>loss_mask_loop\<close> and \<open>pad_loop\<close> are the loops inside the body, in the order of
  the source, and the five assertions on the lengths follow the padding.
\<close>

record UnsupervisedExample =
  unsupervised_tokens :: "string list"

record Tokenizer =
  tokenize :: "string \<Rightarrow> string list"
  token_id :: "string \<Rightarrow> int"

definition convert_tokens_to_ids :: "Tokenizer \<Rightarrow> string list \<Rightarrow> int list" where
  "convert_tokens_to_ids tokenizer toks = map (token_id tokenizer) toks"

record InputFeatures =
  unique_id :: int
  example_index :: nat
  tokens :: "string list"
  token_to_orig_map :: "nat \<rightharpoonup> nat"
  input_ids :: "int list"
  input_mask :: "int list"
  loss_mask :: "int list"
  segment_ids :: "int list"
  label_ids :: "nat list option"

definition slice_to :: "'a list \<Rightarrow> int \<Rightarrow> 'a list" where
  "slice_to xs k = (if k < 0 then take (nat (int (length xs) + k)) xs else take (nat k) xs)"

definition startswith :: "string \<Rightarrow> string \<Rightarrow> bool" where
  "startswith s prefix = (take (length prefix) s = prefix)"

fun sub_token_loop ::
  "nat \<Rightarrow> string \<Rightarrow> string list \<Rightarrow> nat list \<times> string list \<times> string list
     \<Rightarrow> nat list \<times> string list \<times> string list" where
  "sub_token_loop i label [] acc = acc"
| "sub_token_loop i label (sub_token # rest) (tok_to_orig_index, all_tokens, all_labels) =
     sub_token_loop i label rest
       (tok_to_orig_index @ [i], all_tokens @ [sub_token], all_labels @ [label])"

fun word_loop ::
  "Tokenizer \<Rightarrow> (nat \<times> string \<times> string) list
     \<Rightarrow> nat list \<times> nat list \<times> string list \<times> string list
     \<Rightarrow> nat list \<times> nat list \<times> string list \<times> string list" where
  "word_loop tokenizer [] acc = acc"
| "word_loop tokenizer ((i, token, label) # rest)
       (tok_to_orig_index, orig_to_tok_index, all_tokens, all_labels) =
     (case sub_token_loop i label (tokenize tokenizer token)
             (tok_to_orig_index, all_tokens, all_labels) of
        (tok_to_orig_index', all_tokens', all_labels') \<Rightarrow>
          word_loop tokenizer rest
            (tok_to_orig_index', orig_to_tok_index @ [length all_tokens], all_tokens', all_labels'))"

fun frame_loop ::
  "(string \<times> string) list \<Rightarrow> string list \<times> int list \<times> string list
     \<Rightarrow> string list \<times> int list \<times> string list" where
  "frame_loop [] acc = acc"
| "frame_loop ((token, label) # rest) (toks, segs, labs) =
     frame_loop rest (toks @ [token], segs @ [0], labs @ [label])"

definition make_token_to_orig_map :: "nat list \<Rightarrow> (nat \<rightharpoonup> nat)" where
  "make_token_to_orig_map tok_to_orig_index =
     map_of (map (\<lambda>(token_index, orig_index). (token_index + 1, orig_index))
                 (List.enumerate 0 tok_to_orig_index))"

fun loss_mask_loop :: "(nat \<times> string) list \<Rightarrow> int list \<Rightarrow> int list" where
  "loss_mask_loop [] lmask = lmask"
| "loss_mask_loop ((i, token) # rest) lmask =
     loss_mask_loop rest (if startswith token ''##'' then lmask[i := 0] else lmask)"

function pad_loop ::
  "int \<Rightarrow> int list \<times> int list \<times> int list \<times> int list \<times> nat list
     \<Rightarrow> int list \<times> int list \<times> int list \<times> int list \<times> nat list" where
  "pad_loop max_seq_length (ids, imask, lmask, segs, lids) =
     (if int (length ids) < max_seq_length
      then pad_loop max_seq_length (ids @ [0], imask @ [0], lmask @ [0], segs @ [0], lids @ [0])
      else (ids, imask, lmask, segs, lids))"
  by pat_completeness auto
termination
  by (relation "measure (\<lambda>(m, ids, _). nat (m - int (length ids)))") auto

declare pad_loop.simps [simp del]

definition convert_example ::
  "LabelVocab \<Rightarrow> Tokenizer \<Rightarrow> int \<Rightarrow> int \<Rightarrow> nat \<Rightarrow> NERExample \<Rightarrow> py_error + InputFeatures" where
  "convert_example label_vocab tokenizer max_seq_length uid ex_index example =
     (case word_loop tokenizer
             (List.enumerate 0 (zip (example_tokens example) (example_labels example)))
             ([], [], [], []) of
        (tok_to_orig_index, orig_to_tok_index, all_tokens, all_labels) \<Rightarrow>
     (let max_tokens = max_seq_length - 2;
          all_tokens' = slice_to all_tokens max_tokens;
          all_labels' = slice_to all_labels max_tokens
      in (case frame_loop (zip all_tokens' all_labels') ([''[CLS]''], [0], [''O'']) of
        (toks, segs, labs) \<Rightarrow>
     (let toks' = toks @ [''[SEP]''];
          segs' = segs @ [0];
          labs' = labs @ [''O''];
          tmap = make_token_to_orig_map tok_to_orig_index;
          ids = convert_tokens_to_ids tokenizer toks'
      in (case convert_labels_to_ids label_vocab labs' of
           Inl e \<Rightarrow> Inl e
         | Inr lids \<Rightarrow>
     (let imask = replicate (length ids) 1;
          lmask = loss_mask_loop (List.enumerate 0 toks') imask
      in (case pad_loop max_seq_length (ids, imask, lmask, segs', lids) of
        (ids', imask', lmask', segs'', lids') \<Rightarrow>
      (if int (length ids') \<noteq> max_seq_length \<or> int (length imask') \<noteq> max_seq_length
         \<or> int (length lmask') \<noteq> max_seq_length \<or> int (length segs'') \<noteq> max_seq_length
         \<or> int (length lids') \<noteq> max_seq_length
      then Inl AssertionError
      else Inr \<lparr>unique_id = uid, example_index = ex_index, tokens = toks',
                token_to_orig_map = tmap, input_ids = ids', input_mask = imask',
                loss_mask = lmask', segment_ids = segs'', label_ids = Some lids'\<rparr>))))))))"

fun features_loop ::
  "LabelVocab \<Rightarrow> Tokenizer \<Rightarrow> int \<Rightarrow> int \<Rightarrow> (nat \<times> NERExample) list
     \<Rightarrow> py_error + InputFeatures list" where
  "features_loop label_vocab tokenizer max_seq_length uid [] = Inr []"
| "features_loop label_vocab tokenizer max_seq_length uid ((ex_index, example) # rest) =
     (case convert_example label_vocab tokenizer max_seq_length uid ex_index example of
        Inl e \<Rightarrow> Inl e
      | Inr f \<Rightarrow>
          (case features_loop label_vocab tokenizer max_seq_length (uid + 1) rest of
             Inl e \<Rightarrow> Inl e
           | Inr fs \<Rightarrow> Inr (f # fs)))"

definition convert_examples_to_features ::
  "LabelVocab \<Rightarrow> NERExample list \<Rightarrow> Tokenizer \<Rightarrow> int
     \<Rightarrow> py_error + (LabelVocab \<times> InputFeatures list)" where
  "convert_examples_to_features shared_vocab examples tokenizer max_seq_length =
     (case examples of
        [] \<Rightarrow> Inl IndexError
      | _ # _ \<Rightarrow>
          (let label_vocab = build shared_vocab
           in case features_loop label_vocab tokenizer max_seq_length 1000000000
                     (List.enumerate 0 examples) of
                Inl e \<Rightarrow> Inl e
              | Inr fs \<Rightarrow> Inr (label_vocab, fs)))"

subsection \<open>Unlabeled examples\<close>

fun unsupervised_sub_token_loop ::
  "nat \<Rightarrow> string list \<Rightarrow> nat list \<times> string list \<Rightarrow> nat list \<times> string list" where
  "unsupervised_sub_token_loop i [] acc = acc"
| "unsupervised_sub_token_loop i (sub_token # rest) (tok_to_orig_index, all_tokens) =
     unsupervised_sub_token_loop i rest (tok_to_orig_index @ [i], all_tokens @ [sub_token])"

fun unsupervised_word_loop ::
  "Tokenizer \<Rightarrow> (nat \<times> string) list \<Rightarrow> nat list \<times> nat list \<times> string list
     \<Rightarrow> nat list \<times> nat list \<times> string list" where
  "unsupervised_word_loop tokenizer [] acc = acc"
| "unsupervised_word_loop tokenizer ((i, token) # rest)
       (tok_to_orig_index, orig_to_tok_index, all_tokens) =
     (case unsupervised_sub_token_loop i (tokenize tokenizer token)
             (tok_to_orig_index, all_tokens) of
        (tok_to_orig_index', all_tokens') \<Rightarrow>
          unsupervised_word_loop tokenizer rest
            (tok_to_orig_index', orig_to_tok_index @ [length all_tokens], all_tokens'))"

fun unsupervised_frame_loop ::
  "string list \<Rightarrow> string list \<times> int list \<Rightarrow> string list \<times> int list" where
  "unsupervised_frame_loop [] acc = acc"
| "unsupervised_frame_loop (token # rest) (toks, segs) =
     unsupervised_frame_loop rest (toks @ [token], segs @ [0])"

function unsupervised_pad_loop ::
  "int \<Rightarrow> int list \<times> int list \<times> int list \<times> int list
     \<Rightarrow> int list \<times> int list \<times> int list \<times> int list" where
  "unsupervised_pad_loop max_seq_length (ids, imask, lmask, segs) =
     (if int (length ids) < max_seq_length
      then unsupervised_pad_loop max_seq_length (ids @ [0], imask @ [0], lmask @ [0], segs @ [0])
      else (ids, imask, lmask, segs))"
  by pat_completeness auto
termination
  by (relation "measure (\<lambda>(m, ids, _). nat (m - int (length ids)))") auto

declare unsupervised_pad_loop.simps [simp del]

definition convert_unsupervised_example ::
  "Tokenizer \<Rightarrow> int \<Rightarrow> int \<Rightarrow> nat \<Rightarrow> UnsupervisedExample \<Rightarrow> py_error + InputFeatures" where
  "convert_unsupervised_example tokenizer max_seq_length uid ex_index example =
     (case unsupervised_word_loop tokenizer
             (List.enumerate 0 (unsupervised_tokens example)) ([], [], []) of
        (tok_to_orig_index, orig_to_tok_index, all_tokens) \<Rightarrow>
     (let max_tokens = max_seq_length - 2;
          all_tokens' = slice_to all_tokens max_tokens
      in (case unsupervised_frame_loop all_tokens' ([''[CLS]''], [0]) of
        (toks, segs) \<Rightarrow>
     (let toks' = toks @ [''[SEP]''];
          segs' = segs @ [0];
          tmap = make_token_to_orig_map tok_to_orig_index;
          ids = convert_tokens_to_ids tokenizer toks';
          imask = replicate (length ids) 1;
          lmask = loss_mask_loop (List.enumerate 0 toks') imask
      in (case unsupervised_pad_loop max_seq_length (ids, imask, lmask, segs') of
        (ids', imask', lmask', segs'') \<Rightarrow>
      (if int (length ids') \<noteq> max_seq_length \<or> int (length imask') \<noteq> max_seq_length
         \<or> int (length lmask') \<noteq> max_seq_length \<or> int (length segs'') \<noteq> max_seq_length
      then Inl AssertionError
      else Inr \<lparr>unique_id = uid, example_index = ex_index, tokens = toks',
                token_to_orig_map = tmap, input_ids = ids', input_mask = imask',
                loss_mask = lmask', segment_ids = segs'', label_ids = None\<rparr>))))))"

fun unsupervised_features_loop ::
  "Tokenizer \<Rightarrow> int \<Rightarrow> int \<Rightarrow> (nat \<times> UnsupervisedExample) list
     \<Rightarrow> py_error + InputFeatures list" where
  "unsupervised_features_loop tokenizer max_seq_length uid [] = Inr []"
| "unsupervised_features_loop tokenizer max_seq_length uid ((ex_index, example) # rest) =
     (case convert_unsupervised_example tokenizer max_seq_length uid ex_index example of
        Inl e \<Rightarrow> Inl e
      | Inr f \<Rightarrow>
          (case unsupervised_features_loop tokenizer max_seq_length (uid + 1) rest of
             Inl e \<Rightarrow> Inl e
           | Inr fs \<Rightarrow> Inr (f # fs)))"

definition convert_unsupervised_examples_to_features ::
  "UnsupervisedExample list \<Rightarrow> Tokenizer \<Rightarrow> int \<Rightarrow> py_error + InputFeatures list" where
  "convert_unsupervised_examples_to_features examples tokenizer max_seq_length =
     unsupervised_features_loop tokenizer max_seq_length 2000000000 (List.enumerate 0 examples)"


section \<open>Reconstruction of word-level predictions\<close>

text \<open>
  \<^verbatim>\<open>write_predictions\<close>, the part run for one example: the row-wise argmax of the logits
  (index of the first greatest score), the conversion of the ids to label strings and the walk
  over \<^verbatim>\<open>features.tokens\<close>. The third component of the result tells whether the
  warning about an example exceeding the maximum sequence length is logged.
\<close>

fun argmax_loop :: "'a::linorder list \<Rightarrow> nat \<Rightarrow> nat \<Rightarrow> 'a \<Rightarrow> nat" where
  "argmax_loop [] i best_i best = best_i"
| "argmax_loop (x # xs) i best_i best =
     (if best < x then argmax_loop xs (Suc i) i x else argmax_loop xs (Suc i) best_i best)"

definition argmax :: "'a::linorder list \<Rightarrow> py_error + nat" where
  "argmax row = (case row of [] \<Rightarrow> Inl IndexError | x # xs \<Rightarrow> Inr (argmax_loop xs 1 0 x))"

fun argmax_rows :: "'a::linorder list list \<Rightarrow> py_error + nat list" where
  "argmax_rows [] = Inr []"
| "argmax_rows (row # rest) =
     (case argmax row of
        Inl e \<Rightarrow> Inl e
      | Inr k \<Rightarrow> (case argmax_rows rest of Inl e \<Rightarrow> Inl e | Inr ks \<Rightarrow> Inr (k # ks)))"

fun reconstruct_loop ::
  "(nat \<rightharpoonup> nat) \<Rightarrow> string list \<Rightarrow> string list \<Rightarrow> (nat \<times> string) list
     \<Rightarrow> int \<times> string list \<times> string list \<Rightarrow> py_error + (string list \<times> string list)" where
  "reconstruct_loop tmap raw_labels gold [] (last_orig_index, predicted_labels, true_labels) =
     Inr (predicted_labels, true_labels)"
| "reconstruct_loop tmap raw_labels gold ((i, token) # rest)
       (last_orig_index, predicted_labels, true_labels) =
     (if token \<in> set [''[CLS]'', ''[SEP]'']
      then reconstruct_loop tmap raw_labels gold rest
             (last_orig_index, predicted_labels, true_labels)
      else case tmap i of
             None \<Rightarrow> Inl KeyError
           | Some orig_index \<Rightarrow>
               if int orig_index = last_orig_index
               then reconstruct_loop tmap raw_labels gold rest
                      (last_orig_index, predicted_labels, true_labels)
               else if length raw_labels \<le> i then Inl IndexError
               else if length gold \<le> orig_index then Inl IndexError
               else reconstruct_loop tmap raw_labels gold rest
                      (int orig_index, predicted_labels @ [raw_labels ! i],
                       true_labels @ [gold ! orig_index]))"

definition reconstruct_example ::
  "LabelVocab \<Rightarrow> NERExample \<Rightarrow> InputFeatures \<Rightarrow> 'a::linorder list list
     \<Rightarrow> py_error + (string list \<times> string list \<times> bool)" where
  "reconstruct_example label_vocab example features logits =
     (case argmax_rows logits of
        Inl e \<Rightarrow> Inl e
      | Inr max_scores \<Rightarrow>
     (case convert_ids_to_labels label_vocab max_scores of
        Inl e \<Rightarrow> Inl e
      | Inr raw_labels \<Rightarrow>
     (case reconstruct_loop (token_to_orig_map features) raw_labels (example_labels example)
             (List.enumerate 0 (tokens features)) (- 1, [], []) of
        Inl e \<Rightarrow> Inl e
      | Inr (predicted_labels, true_labels) \<Rightarrow>
          if length true_labels \<noteq> length predicted_labels then Inl AssertionError
          else Inr (predicted_labels, true_labels,
                    length predicted_labels \<noteq> length (example_labels example)))))"

section \<open>Unsupervised evaluation\<close>

text \<open>
  \<^verbatim>\<open>evaluate_model_unsupervised\<close>. The network and the perturbation are external: a batch
  is given by what they produce, one triple per example of the example index and the argmax
  ids of the clean and of the perturbed logits. The scorer \<^verbatim>\<open>evaluate\<close> of
  \<^verbatim>\<open>conlleval\<close> is a parameter.
\<close>

fun unsupervised_walk ::
  "(nat \<rightharpoonup> nat) \<Rightarrow> string list \<Rightarrow> string list \<Rightarrow> (nat \<times> string) list
     \<Rightarrow> int \<times> string list \<times> string list \<Rightarrow> py_error + (string list \<times> string list)" where
  "unsupervised_walk tmap original_raw perturbed_raw []
       (last_orig_index, original_labels, perturbed_labels) =
     Inr (original_labels, perturbed_labels)"
| "unsupervised_walk tmap original_raw perturbed_raw ((i, token) # rest)
       (last_orig_index, original_labels, perturbed_labels) =
     (if token \<in> set [''[CLS]'', ''[SEP]'']
      then unsupervised_walk tmap original_raw perturbed_raw rest
             (last_orig_index, original_labels, perturbed_labels)
      else case tmap i of
             None \<Rightarrow> Inl KeyError
           | Some orig_index \<Rightarrow>
               if int orig_index = last_orig_index
               then unsupervised_walk tmap original_raw perturbed_raw rest
                      (last_orig_index, original_labels, perturbed_labels)
               else if length original_raw \<le> i then Inl IndexError
               else if length perturbed_raw \<le> i then Inl IndexError
               else unsupervised_walk tmap original_raw perturbed_raw rest
                      (int orig_index, original_labels @ [original_raw ! i],
                       perturbed_labels @ [perturbed_raw ! i]))"

fun batch_examples_loop ::
  "LabelVocab \<Rightarrow> InputFeatures list \<Rightarrow> (nat \<times> nat list \<times> nat list) list
     \<Rightarrow> string list \<times> string list \<Rightarrow> py_error + (string list \<times> string list)" where
  "batch_examples_loop label_vocab eval_features [] acc = Inr acc"
| "batch_examples_loop label_vocab eval_features
       ((ex_index, original_max_score, perturbed_max_score) # rest)
       (original_labels, perturbed_labels) =
     (case convert_ids_to_labels label_vocab original_max_score of
        Inl e \<Rightarrow> Inl e
      | Inr original_raw_labels \<Rightarrow>
     (case convert_ids_to_labels label_vocab perturbed_max_score of
        Inl e \<Rightarrow> Inl e
      | Inr perturbed_raw_labels \<Rightarrow>
     (if length eval_features \<le> ex_index then Inl IndexError
      else case unsupervised_walk (token_to_orig_map (eval_features ! ex_index))
                  original_raw_labels perturbed_raw_labels
                  (List.enumerate 0 (tokens (eval_features ! ex_index)))
                  (- 1, original_labels, perturbed_labels) of
             Inl e \<Rightarrow> Inl e
           | Inr acc' \<Rightarrow> batch_examples_loop label_vocab eval_features rest acc')))"

fun batches_loop ::
  "LabelVocab \<Rightarrow> InputFeatures list \<Rightarrow> (nat \<times> nat list \<times> nat list) list list
     \<Rightarrow> string list \<times> string list \<Rightarrow> py_error + (string list \<times> string list)" where
  "batches_loop label_vocab eval_features [] acc = Inr acc"
| "batches_loop label_vocab eval_features (batch # rest)
       (all_original_labels, all_perturbed_labels) =
     (case batch_examples_loop label_vocab eval_features batch ([], []) of
        Inl e \<Rightarrow> Inl e
      | Inr (original_labels, perturbed_labels) \<Rightarrow>
          if length original_labels \<noteq> length perturbed_labels then Inl AssertionError
          else batches_loop label_vocab eval_features rest
                 (all_original_labels @ original_labels,
                  all_perturbed_labels @ perturbed_labels))"

definition evaluate_model_unsupervised ::
  "LabelVocab \<Rightarrow> InputFeatures list \<Rightarrow> (nat \<times> nat list \<times> nat list) list list
     \<Rightarrow> (string list \<Rightarrow> string list \<Rightarrow> py_error + real \<times> real \<times> real)
     \<Rightarrow> py_error + real \<times> real \<times> real" where
  "evaluate_model_unsupervised label_vocab eval_features batches evaluate =
     (case batches_loop label_vocab eval_features batches ([], []) of
        Inl e \<Rightarrow> Inl e
      | Inr (all_original_labels, all_perturbed_labels) \<Rightarrow>
          if length all_original_labels \<noteq> length all_perturbed_labels then Inl AssertionError
          else if set all_original_labels = {''O''} then Inr (0, 0, 0)
          else evaluate all_original_labels all_perturbed_labels)"

section \<open>Supervised loss of the model\<close>

text \<open>
  \<^verbatim>\<open>BertForUdaNer.forward\<close>. The encoder with dropout and classifier, and the two uses of
  \<^verbatim>\<open>CrossEntropyLoss\<close>, are parameters of the model; the annealing object is given by
  its \<^verbatim>\<open>step\<close> and \<^verbatim>\<open>apply\<close> methods over a state \<open>'s\<close>. A tensor is the list
  of its entries along the first dimension, so \<^verbatim>\<open>len(logits)\<close> is the length of the list.
\<close>

record ('i, 'am, 'lg, 'lb, 'm) BertForUdaNer =
  classifier_logits :: "'i \<Rightarrow> 'i option \<Rightarrow> 'am option \<Rightarrow> bool \<Rightarrow> 'lg list"
  active_loss :: "'lg list \<Rightarrow> 'lb list \<Rightarrow> 'm list \<Rightarrow> real"
  full_loss :: "'lg list \<Rightarrow> 'lb list \<Rightarrow> real"

record ('s, 'lg, 'lb, 'm) TSA =
  tsa_step :: "'s \<Rightarrow> 's"
  tsa_apply :: "'s \<Rightarrow> 'lg list \<Rightarrow> 'lb list \<Rightarrow> 'm list option
                  \<Rightarrow> ('lg list \<times> 'lb list \<times> 'm list option) \<times> 's"

datatype 'lg forward_result = Loss real | Logits "'lg list"

definition forward ::
  "('i, 'am, 'lg, 'lb, 'm) BertForUdaNer \<Rightarrow> ('s, 'lg, 'lb, 'm) TSA
     \<Rightarrow> 'i \<Rightarrow> 'i option \<Rightarrow> 'am option \<Rightarrow> 'm list option \<Rightarrow> 'lb list option \<Rightarrow> 's option \<Rightarrow> bool
     \<Rightarrow> py_error + ('lg forward_result \<times> 's option)" where
  "forward model tsa_class inp token_type_ids attention_mask lmask labs tsa use_dropout =
     (let logits = classifier_logits model inp token_type_ids attention_mask use_dropout
      in case labs of
           None \<Rightarrow> Inr (Logits logits, tsa)
         | Some labs' \<Rightarrow>
             (case (case tsa of
                      None \<Rightarrow> ((logits, labs', lmask), None)
                    | Some s \<Rightarrow>
                        (case tsa_apply tsa_class (tsa_step tsa_class s) logits labs' lmask of
                           (filtered, s') \<Rightarrow> (filtered, Some s'))) of
                ((logits', labs'', lmask'), tsa') \<Rightarrow>
                  if length logits' = 0 then Inr (Loss 0, tsa')
                  else (case attention_mask of
                          Some _ \<Rightarrow>
                            (case lmask' of
                               None \<Rightarrow> Inl AttributeError
                             | Some m \<Rightarrow> Inr (Loss (active_loss model logits' labs'' m), tsa'))
                        | None \<Rightarrow> Inr (Loss (full_loss model logits' labs''), tsa'))))"

section \<open>Feature caches\<close>

text \<open>
  The \<^verbatim>\<open>try\<close>/\<^verbatim>\<open>except\<close> blocks of \<^verbatim>\<open>main\<close> and
  \<^verbatim>\<open>_load_unsupervised_data\<close>. The name of the cache file is computed before the
  block and is an argument here.

  Reading: the files hold a content for the paths that exist; \<^verbatim>\<open>pickle.load\<close> returns
  \<open>None\<close> where it raises. Opening a missing file raises as well, and the bare
  \<^verbatim>\<open>except\<close> catches both.

  Writing happens inside the handler, where nothing catches what it raises.
  \<^verbatim>\<open>open(path, "wb")\<close> raises the exception that \<open>open_wb\<close> gives for the path (a
  read-only directory gives \<open>PermissionError\<close>), \<^verbatim>\<open>pickle.dump\<close> may raise, and
  \<^verbatim>\<open>torch.distributed.get_rank()\<close> may raise too; it is called only when
  \<^verbatim>\<open>args.local_rank\<close> is not -1, the \<^verbatim>\<open>or\<close> being evaluated from the left. The
  argument \<open>get_rank\<close> is the outcome of that call, an exception or a rank.
\<close>

record 'b Pickle =
  pickle_load :: "'b \<Rightarrow> InputFeatures list option"
  pickle_dump :: "InputFeatures list \<Rightarrow> py_error + 'b"

record 'b Files =
  contents :: "string \<rightharpoonup> 'b"
  open_wb :: "string \<Rightarrow> py_error option"

definition read_cache :: "'b Pickle \<Rightarrow> 'b Files \<Rightarrow> string \<Rightarrow> InputFeatures list option" where
  "read_cache pickle files path =
     (case contents files path of None \<Rightarrow> None | Some content \<Rightarrow> pickle_load pickle content)"

definition write_cache ::
  "'b Pickle \<Rightarrow> 'b Files \<Rightarrow> string \<Rightarrow> InputFeatures list \<Rightarrow> py_error + 'b Files" where
  "write_cache pickle files path features =
     (case open_wb files path of
        Some e \<Rightarrow> Inl e
      | None \<Rightarrow>
          (case pickle_dump pickle features of
             Inl e \<Rightarrow> Inl e
           | Inr content \<Rightarrow> Inr (files\<lparr>contents := (contents files)(path \<mapsto> content)\<rparr>)))"

definition is_writer :: "int \<Rightarrow> py_error + nat \<Rightarrow> py_error + bool" where
  "is_writer local_rank get_rank =
     (if local_rank = - 1 then Inr True
      else (case get_rank of Inl e \<Rightarrow> Inl e | Inr rank \<Rightarrow> Inr (rank = 0)))"

definition load_train_features ::
  "'b Pickle \<Rightarrow> 'b Files \<Rightarrow> string \<Rightarrow> int \<Rightarrow> py_error + nat
     \<Rightarrow> LabelVocab \<Rightarrow> NERExample list \<Rightarrow> Tokenizer \<Rightarrow> int
     \<Rightarrow> py_error + (InputFeatures list \<times> 'b Files \<times> LabelVocab)" where
  "load_train_features pickle files cached_train_features_file local_rank get_rank
       shared_vocab train_examples tokenizer max_seq_length =
     (case read_cache pickle files cached_train_features_file of
        Some train_features \<Rightarrow> Inr (train_features, files, shared_vocab)
      | None \<Rightarrow>
          (case convert_examples_to_features shared_vocab train_examples tokenizer
                  max_seq_length of
             Inl e \<Rightarrow> Inl e
           | Inr (label_vocab, train_features) \<Rightarrow>
               (case is_writer local_rank get_rank of
                  Inl e \<Rightarrow> Inl e
                | Inr writer \<Rightarrow>
                    if writer
                    then (case write_cache pickle files cached_train_features_file
                                 train_features of
                            Inl e \<Rightarrow> Inl e
                          | Inr files' \<Rightarrow> Inr (train_features, files', label_vocab))
                    else Inr (train_features, files, label_vocab))))"


section \<open>Derived notions\<close>

text \<open>
  Closed forms of the loops above, and projections of the results used to state the
  properties: the subword pieces of a list of words, the word index and the label carried by
  each piece, the pieces kept after truncation, the framing by the two markers and the
  number of padding entries.
\<close>

definition all_pieces :: "Tokenizer \<Rightarrow> string list \<Rightarrow> string list" where
  "all_pieces tk ws = concat (map (tokenize tk) ws)"

definition piece_origins :: "Tokenizer \<Rightarrow> nat \<Rightarrow> string list \<Rightarrow> nat list" where
  "piece_origins tk n ws =
     concat (map (\<lambda>(i, w). replicate (length (tokenize tk w)) i) (List.enumerate n ws))"

definition piece_labels :: "Tokenizer \<Rightarrow> (string \<times> string) list \<Rightarrow> string list" where
  "piece_labels tk wl = concat (map (\<lambda>(w, l). replicate (length (tokenize tk w)) l) wl)"

definition word_label_pairs :: "NERExample \<Rightarrow> (string \<times> string) list" where
  "word_label_pairs ex = zip (example_tokens ex) (example_labels ex)"

definition kept_pieces :: "Tokenizer \<Rightarrow> int \<Rightarrow> NERExample \<Rightarrow> string list" where
  "kept_pieces tk m ex = slice_to (all_pieces tk (map fst (word_label_pairs ex))) (m - 2)"

definition kept_labels :: "Tokenizer \<Rightarrow> int \<Rightarrow> NERExample \<Rightarrow> string list" where
  "kept_labels tk m ex = slice_to (piece_labels tk (word_label_pairs ex)) (m - 2)"

definition framed :: "string list \<Rightarrow> string list" where
  "framed ps = ''[CLS]'' # ps @ [''[SEP]'']"

definition padding :: "int \<Rightarrow> nat \<Rightarrow> nat" where
  "padding m n = nat (m - int n)"

definition unsupervised_kept_pieces :: "Tokenizer \<Rightarrow> int \<Rightarrow> UnsupervisedExample \<Rightarrow> string list" where
  "unsupervised_kept_pieces tk m ex = slice_to (all_pieces tk (unsupervised_tokens ex)) (m - 2)"

definition arrays_have_length :: "InputFeatures \<Rightarrow> int \<Rightarrow> bool" where
  "arrays_have_length f m =
     (int (length (input_ids f)) = m \<and> int (length (input_mask f)) = m \<and>
      int (length (loss_mask f)) = m \<and> int (length (segment_ids f)) = m \<and>
      (case label_ids f of None \<Rightarrow> True | Some lids \<Rightarrow> int (length lids) = m))"

definition converted_loss_masks ::
  "LabelVocab \<Rightarrow> NERExample list \<Rightarrow> Tokenizer \<Rightarrow> int \<Rightarrow> py_error + int list list" where
  "converted_loss_masks v exs tk m =
     (case convert_examples_to_features v exs tk m of
        Inl e \<Rightarrow> Inl e
      | Inr (v', fs) \<Rightarrow> Inr (map loss_mask fs))"

definition converted_orig_maps ::
  "LabelVocab \<Rightarrow> NERExample list \<Rightarrow> Tokenizer \<Rightarrow> int \<Rightarrow> py_error + nat option list list" where
  "converted_orig_maps v exs tk m =
     (case convert_examples_to_features v exs tk m of
        Inl e \<Rightarrow> Inl e
      | Inr (v', fs) \<Rightarrow>
          Inr (map (\<lambda>f. map (token_to_orig_map f) [0..<length (tokens f)]) fs))"

definition one_hot :: "nat \<Rightarrow> nat \<Rightarrow> int list" where
  "one_hot num_labels label_id = map (\<lambda>j. if j = label_id then 1 else 0) [0..<num_labels]"

definition round_trip ::
  "LabelVocab \<Rightarrow> NERExample \<Rightarrow> Tokenizer \<Rightarrow> int \<Rightarrow> py_error + (string list \<times> string list \<times> bool)" where
  "round_trip v ex tk m =
     (case convert_examples_to_features v [ex] tk m of
        Inl e \<Rightarrow> Inl e
      | Inr (v', fs) \<Rightarrow>
          (case fs of
             [f] \<Rightarrow>
               (case label_ids f of
                  None \<Rightarrow> Inl TypeError
                | Some lids \<Rightarrow>
                    reconstruct_example v' ex f (map (one_hot (length (labels v'))) lids))
           | _ \<Rightarrow> Inl IndexError))"

definition converted_label_ids ::
  "LabelVocab \<Rightarrow> NERExample list \<Rightarrow> Tokenizer \<Rightarrow> int \<Rightarrow> py_error + nat list option list" where
  "converted_label_ids v exs tk m =
     (case convert_examples_to_features v exs tk m of
        Inl e \<Rightarrow> Inl e
      | Inr (v', fs) \<Rightarrow> Inr (map label_ids fs))"




definition after_recomputation ::
  "'b Pickle \<Rightarrow> 'b Files \<Rightarrow> string \<Rightarrow> int \<Rightarrow> py_error + nat \<Rightarrow> InputFeatures list
     \<Rightarrow> py_error + 'b Files" where
  "after_recomputation pk files path lr gr fs =
     (case is_writer lr gr of
        Inl e \<Rightarrow> Inl e
      | Inr writer \<Rightarrow> if writer then write_cache pk files path fs else Inr files)"


section \<open>Concrete inputs\<close>

text \<open>
  Inputs on which the functions are run: small vocabularies and examples, a tokenizer that
  gives every word as its only piece, one that splits \<open>U.S.\<close> at its punctuation, a
  model and an annealing filter over integer scores, a feature with a continuation piece,
  a pickle that stores the feature list itself, and two empty file systems, one where
  every file opens for writing and one where none does.
\<close>

definition vocab_O_IPER :: LabelVocab where
  "vocab_O_IPER = \<lparr>label_set = {|''O'', ''I-PER''|}, labels = [], labels_dict = Map.empty\<rparr>"

definition example_Ann :: NERExample where
  "example_Ann = \<lparr>example_tokens = [''Ann''], example_labels = [''B-PER'']\<rparr>"

definition toy_model :: "(int list, int list, int list, nat, int) BertForUdaNer" where
  "toy_model = \<lparr>classifier_logits = (\<lambda>ids tt am d. map (\<lambda>x. [x, 5 - x]) ids),
                active_loss = (\<lambda>lg lb m. 1), full_loss = (\<lambda>lg lb. 1)\<rparr>"

definition toy_tsa :: "(nat, int list, nat, int) TSA" where
  "toy_tsa = \<lparr>tsa_step = Suc,
              tsa_apply = (\<lambda>step lg lb m.
                 ((map fst (filter (\<lambda>(row, y). row ! y < int step) (zip lg lb)),
                   map snd (filter (\<lambda>(row, y). row ! y < int step) (zip lg lb)),
                   m), step))\<rparr>"

definition toy_vocab :: LabelVocab where
  "toy_vocab = \<lparr>label_set = {|''O'', ''B-PER''|}, labels = [''O'', ''B-PER''],
                labels_dict = [''O'' \<mapsto> 0, ''B-PER'' \<mapsto> 1]\<rparr>"

definition toy_feature :: InputFeatures where
  "toy_feature = \<lparr>unique_id = 2000000000, example_index = 0,
     tokens = [''[CLS]'', ''play'', ''##ing'', ''[SEP]''],
     token_to_orig_map = [1 \<mapsto> 0, 2 \<mapsto> 0],
     input_ids = [101, 7, 8, 102, 0], input_mask = [1, 1, 1, 1, 0],
     loss_mask = [1, 1, 0, 1, 0], segment_ids = [0, 0, 0, 0, 0], label_ids = None\<rparr>"

definition one_piece_tokenizer :: Tokenizer where
  "one_piece_tokenizer = \<lparr>tokenize = (\<lambda>w. [w]), token_id = (\<lambda>w. int (length w))\<rparr>"

definition John_example :: NERExample where
  "John_example = \<lparr>example_tokens = [''John'', ''lives'', ''in'', ''Paris''],
                    example_labels = [''B-PER'', ''O'', ''O'', ''B-LOC'']\<rparr>"

definition John_vocab :: LabelVocab where
  "John_vocab = update LabelVocab_init John_example"

definition John_sentence :: UnsupervisedExample where
  "John_sentence = \<lparr>unsupervised_tokens = [''John'', ''lives'', ''in'', ''Paris'']\<rparr>"

definition punctuation_tokenizer :: Tokenizer where
  "punctuation_tokenizer =
     \<lparr>tokenize = (\<lambda>w. if w = ''U.S.'' then [''U'', ''.'', ''S'', ''.''] else [w]),
      token_id = (\<lambda>w. int (length w))\<rparr>"

definition US_example :: NERExample where
  "US_example = \<lparr>example_tokens = [''U.S.'', ''wins''], example_labels = [''B-LOC'', ''O'']\<rparr>"

definition US_vocab :: LabelVocab where
  "US_vocab = update LabelVocab_init US_example"

definition marker_example :: NERExample where
  "marker_example = \<lparr>example_tokens = [''[SEP]''], example_labels = [''B-PER'']\<rparr>"

definition marker_vocab :: LabelVocab where
  "marker_vocab = update LabelVocab_init marker_example"

definition John_logits :: "int list list" where
  "John_logits = [[1, 0, 0], [0, 0, 1], [1, 0, 0], [1, 0, 0], [0, 1, 0], [1, 0, 0],
                  [1, 0, 0], [1, 0, 0], [1, 0, 0], [1, 0, 0]]"

definition identity_pickle :: "InputFeatures list Pickle" where
  "identity_pickle = \<lparr>pickle_load = Some, pickle_dump = Inr\<rparr>"

definition no_files :: "InputFeatures list Files" where
  "no_files = \<lparr>contents = Map.empty, open_wb = (\<lambda>path. None)\<rparr>"

definition read_only_files :: "InputFeatures list Files" where
  "read_only_files = \<lparr>contents = Map.empty, open_wb = (\<lambda>path. Some PermissionError)\<rparr>"

section \<open>The label vocabulary\<close>

lemma fold_invert_notin:
  "l \<notin> set ls \<Longrightarrow> fold (\<lambda>(k, v) d. d(v \<mapsto> k)) (List.enumerate n ls) d l = d l"
  by (induction ls arbitrary: n d) auto

lemma fold_invert_nth:
  "distinct ls \<Longrightarrow> i < length ls \<Longrightarrow>
   fold (\<lambda>(k, v) d. d(v \<mapsto> k)) (List.enumerate n ls) d (ls ! i) = Some (n + i)"
proof (induction ls arbitrary: n d i)
  case Nil
  then show ?case by simp
next
  case (Cons a ls)
  show ?case
  proof (cases i)
    case 0
    from Cons.prems have "a \<notin> set ls" by simp
    then have "fold (\<lambda>(k, v) d. d(v \<mapsto> k)) (List.enumerate (Suc n) ls) (d(a \<mapsto> n)) a
                = (d(a \<mapsto> n)) a"
      by (rule fold_invert_notin)
    then have "fold (\<lambda>(k, v) d. d(v \<mapsto> k)) (List.enumerate (Suc n) ls) (d(a \<mapsto> n)) a = Some n"
      by (simp only: fun_upd_same)
    with 0 show ?thesis by (simp only: enumerate_simps fold_simps case_prod_conv nth_Cons_0 comp_apply add_0_right)
  next
    case (Suc j)
    with Cons.prems Cons.IH [of j "Suc n" "d(a \<mapsto> n)"] show ?thesis by simp
  qed
qed

lemma invert_enumerate_nth:
  "distinct ls \<Longrightarrow> i < length ls \<Longrightarrow> invert_enumerate ls (ls ! i) = Some i"
  by (simp add: invert_enumerate_def fold_invert_nth)

lemma invert_enumerate_notin:
  "l \<notin> set ls \<Longrightarrow> invert_enumerate ls l = None"
  by (simp add: invert_enumerate_def fold_invert_notin)

lemma invert_enumerate_Some:
  assumes "distinct ls" and "invert_enumerate ls l = Some i"
  shows "i < length ls \<and> ls ! i = l"
proof -
  from assms(2) have "l \<in> set ls"
    using invert_enumerate_notin by fastforce
  then obtain j where j: "j < length ls" "ls ! j = l"
    by (auto simp: in_set_conv_nth)
  with assms(1) have "invert_enumerate ls l = Some j"
    using invert_enumerate_nth by blast
  with assms(2) j show ?thesis by simp
qed

lemma distinct_sorted_list_of_fset: "distinct (sorted_list_of_fset S)"
  by (simp add: sorted_list_of_fset.rep_eq)

lemma length_sorted_list_of_fset: "length (sorted_list_of_fset S) = fcard S"
  by (simp add: sorted_list_of_fset.rep_eq fcard.rep_eq)

lemma labels_build: "labels (build v) = ''O'' # sorted_list_of_fset (label_set v |-| {|''O''|})"
  by (simp add: build_def Let_def)

lemma labels_dict_build: "labels_dict (build v) = invert_enumerate (labels (build v))"
  by (simp add: build_def Let_def)

lemma label_set_build: "label_set (build v) = label_set v"
  by (simp add: build_def Let_def)

lemma distinct_labels_build: "distinct (labels (build v))"
  by (simp add: labels_build distinct_sorted_list_of_fset)

lemma set_labels_build: "set (labels (build v)) = insert ''O'' (fset (label_set v))"
  by (auto simp: labels_build)

lemma build_idem: "build (build v) = build v"
  by (simp add: build_def Let_def)

lemma update_labels: "labels (update v ex) = labels v" "labels_dict (update v ex) = labels_dict v"
  by (simp_all add: update_def)

lemma fold_update_frozen:
  "labels (fold (\<lambda>ex v. update v ex) exs v) = labels v \<and>
   labels_dict (fold (\<lambda>ex v. update v ex) exs v) = labels_dict v"
  by (induction exs arbitrary: v) (simp_all add: update_labels)

lemma convert_labels_to_ids_cong:
  "labels_dict v = labels_dict w \<Longrightarrow> convert_labels_to_ids v ls = convert_labels_to_ids w ls"
  by (induction ls) (simp_all split: option.splits sum.splits)

lemma labels_dict_build_Some:
  assumes "l |\<in>| label_set v \<or> l = ''O''"
  shows "\<exists>i. labels_dict (build v) l = Some i \<and> i < length (labels (build v)) \<and> labels (build v) ! i = l"
proof -
  from assms have "l \<in> set (labels (build v))"
    by (auto simp: set_labels_build)
  then obtain i where i: "i < length (labels (build v))" "labels (build v) ! i = l"
    by (auto simp: in_set_conv_nth)
  then have "labels_dict (build v) l = Some i"
    using invert_enumerate_nth [OF distinct_labels_build, of i v] by (simp add: labels_dict_build)
  with i show ?thesis by blast
qed


text \<open>
  Claim C3. A vocabulary whose accumulated label set is \<open>{O, B-PER, I-PER}\<close> is frozen by
  \<open>build\<close> into the list \<open>[O, B-PER, I-PER]\<close>, with the ids 0, 1 and 2; \<open>build\<close>
  leaves the set as it is, and building again gives the same list and the same
  label-to-id mapping.
\<close>

theorem build_O_BPER_IPER:
  assumes "label_set v = {|''O'', ''B-PER'', ''I-PER''|}"
  shows "labels (build v) = [''O'', ''B-PER'', ''I-PER''] \<and>
         label_set (build v) = label_set v \<and>
         labels (build (build v)) = labels (build v) \<and>
         labels_dict (build (build v)) = labels_dict (build v) \<and>
         map (labels_dict (build v)) [''O'', ''B-PER'', ''I-PER''] = [Some 0, Some 1, Some 2]"
proof -
  have "{|''O'', ''B-PER'', ''I-PER''|} |-| {|''O''|} = {|''B-PER'', ''I-PER''|}"
    by auto
  moreover have "sorted_list_of_fset {|''B-PER'', ''I-PER''|} = [''B-PER'', ''I-PER'']"
    by (simp add: sorted_list_of_fset.rep_eq)
  ultimately have l: "labels (build v) = [''O'', ''B-PER'', ''I-PER'']"
    using assms by (simp add: labels_build)
  have "map (invert_enumerate [''O'', ''B-PER'', ''I-PER'']) [''O'', ''B-PER'', ''I-PER'']
          = [Some 0, Some 1, Some 2]"
    by (simp add: invert_enumerate_def)
  with l show ?thesis
    by (simp add: labels_dict_build build_idem label_set_build)
qed

theorem build_O_BPER_IPER_witness:
  "label_set \<lparr>label_set = {|''I-PER'', ''O'', ''B-PER''|}, labels = [], labels_dict = Map.empty\<rparr>
     = {|''O'', ''B-PER'', ''I-PER''|} \<and>
   labels (build \<lparr>label_set = {|''I-PER'', ''O'', ''B-PER''|}, labels = [], labels_dict = Map.empty\<rparr>)
     = [''O'', ''B-PER'', ''I-PER'']"
proof -
  have h: "label_set \<lparr>label_set = {|''I-PER'', ''O'', ''B-PER''|}, labels = [], labels_dict = Map.empty\<rparr>
     = {|''O'', ''B-PER'', ''I-PER''|}" by auto
  from build_O_BPER_IPER [OF h] h show ?thesis by blast
qed

text \<open>
  Claim C9. After \<open>build\<close>, any number of calls of \<open>update\<close> leaves the label-to-id
  mapping as it was: \<open>convert_labels_to_ids\<close> returns the same result for every list of
  labels, and every label that was in the set when it was frozen keeps the id it was given.
\<close>

theorem frozen_ids_stable:
  "labels_dict (fold (\<lambda>ex v. update v ex) exs (build v)) = labels_dict (build v) \<and>
   convert_labels_to_ids (fold (\<lambda>ex v. update v ex) exs (build v)) ls
     = convert_labels_to_ids (build v) ls \<and>
   (\<forall>l. l |\<in>| label_set v \<longrightarrow>
      (\<exists>i. convert_labels_to_ids (build v) [l] = Inr [i] \<and>
           convert_labels_to_ids (fold (\<lambda>ex v. update v ex) exs (build v)) [l] = Inr [i]))"
proof -
  let ?w = "fold (\<lambda>ex v. update v ex) exs (build v)"
  have d: "labels_dict ?w = labels_dict (build v)"
    using fold_update_frozen by blast
  have c: "\<And>ks. convert_labels_to_ids ?w ks = convert_labels_to_ids (build v) ks"
    using d by (rule convert_labels_to_ids_cong)
  have "\<exists>i. convert_labels_to_ids (build v) [l] = Inr [i] \<and> convert_labels_to_ids ?w [l] = Inr [i]"
    if "l |\<in>| label_set v" for l
  proof -
    from that obtain i where "labels_dict (build v) l = Some i"
      using labels_dict_build_Some by blast
    then have "convert_labels_to_ids (build v) [l] = Inr [i]" by simp
    moreover have "convert_labels_to_ids ?w [l] = convert_labels_to_ids (build v) [l]" by (rule c)
    ultimately show ?thesis by simp
  qed
  with d c show ?thesis by blast
qed


theorem frozen_ids_stable_witness:
  "''I-PER'' |\<in>| label_set vocab_O_IPER \<and>
   convert_labels_to_ids (build vocab_O_IPER) [''I-PER''] = Inr [1] \<and>
   convert_labels_to_ids (fold (\<lambda>ex v. update v ex) [example_Ann] (build vocab_O_IPER)) [''I-PER''] = Inr [1]"
proof -
  have h: "''I-PER'' |\<in>| label_set vocab_O_IPER" by (simp add: vocab_O_IPER_def)
  have b: "convert_labels_to_ids (build vocab_O_IPER) [''I-PER''] = Inr [1]"
    by (simp add: vocab_O_IPER_def build_def invert_enumerate_def sorted_list_of_fset.rep_eq)
  have e: "convert_labels_to_ids (fold (\<lambda>ex v. update v ex) [example_Ann] (build vocab_O_IPER)) [''I-PER'']
             = convert_labels_to_ids (build vocab_O_IPER) [''I-PER'']"
    using frozen_ids_stable [of "[example_Ann]" vocab_O_IPER "[''I-PER'']"] by blast
  from h b trans [OF e b] show ?thesis by blast
qed

text \<open>
  The ids are stable under \<open>update\<close> only until the next \<open>build\<close>: building again
  after the set has grown sorts the new labels in and moves the old ones.
\<close>

lemma rebuild_after_update_reassigns:
  "convert_labels_to_ids (build vocab_O_IPER) [''I-PER''] = Inr [1] \<and>
   convert_labels_to_ids (build (update (build vocab_O_IPER) example_Ann)) [''I-PER''] = Inr [2]"
  by code_simp

text \<open>
  Claim C10. The length of a vocabulary is the number of distinct labels in its set, and
  \<open>build\<close> puts \<open>O\<close> at index 0 in every case. So the length of the vocabulary equals
  the length of the frozen list exactly when \<open>O\<close> is in the set; when it is not, the
  frozen list is one entry longer.
\<close>

theorem len_vs_frozen_list:
  "labels (build v) ! 0 = ''O'' \<and>
   len_vocab v = fcard (label_set v) \<and>
   ((len_vocab v = length (labels (build v))) = (''O'' |\<in>| label_set v)) \<and>
   (''O'' |\<notin>| label_set v \<longrightarrow> length (labels (build v)) = len_vocab v + 1)"
proof -
  have n: "length (labels (build v)) = Suc (fcard (label_set v |-| {|''O''|}))"
    by (simp add: labels_build length_sorted_list_of_fset)
  have h: "labels (build v) ! 0 = ''O''"
    by (simp add: labels_build)
  have c: "len_vocab v = fcard (label_set v)"
    by (simp add: len_vocab_def)
  show ?thesis
  proof (cases "''O'' |\<in>| label_set v")
    case True
    then have "Suc (fcard (label_set v |-| {|''O''|})) = fcard (label_set v)"
      using fcard_Suc_fminus1 by fastforce
    with n c have "len_vocab v = length (labels (build v))" by simp
    with True h c show ?thesis by simp
  next
    case False
    then have "label_set v |-| {|''O''|} = label_set v" by auto
    with n c have "length (labels (build v)) = len_vocab v + 1" by simp
    with False h c show ?thesis by simp
  qed
qed

theorem len_vs_frozen_list_witness:
  "''O'' |\<notin>| label_set \<lparr>label_set = {|''B-PER'', ''I-PER''|}, labels = [], labels_dict = Map.empty\<rparr> \<and>
   len_vocab \<lparr>label_set = {|''B-PER'', ''I-PER''|}, labels = [], labels_dict = Map.empty\<rparr> = 2 \<and>
   length (labels (build \<lparr>label_set = {|''B-PER'', ''I-PER''|}, labels = [], labels_dict = Map.empty\<rparr>)) = 3"
  using len_vs_frozen_list [of "\<lparr>label_set = {|''B-PER'', ''I-PER''|}, labels = [], labels_dict = Map.empty\<rparr>"]
  by (simp add: len_vocab_def fcard.rep_eq)

section \<open>Empty selection of the annealing filter\<close>

text \<open>
  Claim C5. When the annealing object's \<open>apply\<close>, called after its \<open>step\<close>, returns no
  logits for a supervised batch, \<open>forward\<close> returns the loss 0 and raises nothing.
\<close>

theorem forward_empty_filter_zero_loss:
  assumes "tsa_apply tsa_class (tsa_step tsa_class s)
             (classifier_logits model inp token_type_ids attention_mask use_dropout) labs lmask
           = (([], labs', lmask'), s')"
  shows "forward model tsa_class inp token_type_ids attention_mask lmask (Some labs) (Some s) use_dropout
         = Inr (Loss 0, Some s')"
  using assms by (simp add: forward_def)
theorem forward_empty_filter_zero_loss_witness:
  "tsa_apply toy_tsa (tsa_step toy_tsa 0)
     (classifier_logits toy_model [4, 3] None (Some [1, 1]) True) [0, 0] (Some [1, 1])
     = (([], [], Some [1, 1]), 1) \<and>
   forward toy_model toy_tsa [4, 3] None (Some [1, 1]) (Some [1, 1]) (Some [0, 0]) (Some 0) True
     = Inr (Loss 0, Some 1)"
proof -
  have h: "tsa_apply toy_tsa (tsa_step toy_tsa 0)
     (classifier_logits toy_model [4, 3] None (Some [1, 1]) True) [0, 0] (Some [1, 1])
     = (([], [], Some [1, 1]), 1)"
    by (simp add: toy_tsa_def toy_model_def)
  from forward_empty_filter_zero_loss [OF h] h show ?thesis by simp
qed

section \<open>The unsupervised evaluator on background-only predictions\<close>

lemma unsupervised_walk_lengths:
  "unsupervised_walk tmap oraw praw its (last_i, ol, pl) = Inr (ol', pl') \<Longrightarrow>
   length ol = length pl \<Longrightarrow> length ol' = length pl'"
proof (induction its arbitrary: last_i ol pl)
  case Nil
  then show ?case by simp
next
  case (Cons it its)
  obtain i token where it: "it = (i, token)" by (cases it)
  from Cons.prems Cons.IH show ?case
    unfolding it by (auto split: if_splits option.splits)
qed

lemma batch_examples_loop_lengths:
  "batch_examples_loop v fs batch (ol, pl) = Inr (ol', pl') \<Longrightarrow>
   length ol = length pl \<Longrightarrow> length ol' = length pl'"
proof (induction batch arbitrary: ol pl)
  case Nil
  then show ?case by simp
next
  case (Cons b batch)
  obtain k om pm where b: "b = (k, om, pm)" by (cases b)
  from Cons.prems Cons.IH show ?case
    unfolding b
    by (auto split: if_splits sum.splits dest: unsupervised_walk_lengths)
qed

lemma batches_loop_lengths:
  "batches_loop v fs batches (ao, ap) = Inr (ao', ap') \<Longrightarrow>
   length ao = length ap \<Longrightarrow> length ao' = length ap'"
proof (induction batches arbitrary: ao ap)
  case Nil
  then show ?case by simp
next
  case (Cons b batches)
  from Cons.prems Cons.IH show ?case
    by (auto split: if_splits sum.splits)
qed

text \<open>
  Claim C6. When the clean labels collected over all batches are the background tag \<open>O\<close>
  and nothing else, the unsupervised evaluator returns the triple (0, 0, 0); the scorer is
  not called, so it cannot fail with a division by zero.
\<close>

theorem all_background_returns_zeros:
  assumes "batches_loop label_vocab eval_features batches ([], []) = Inr (all_original_labels, all_perturbed_labels)"
    and "set all_original_labels = {''O''}"
  shows "evaluate_model_unsupervised label_vocab eval_features batches evaluate = Inr (0, 0, 0)"
proof -
  from assms(1) have "length all_original_labels = length all_perturbed_labels"
    by (rule batches_loop_lengths) simp
  with assms show ?thesis
    by (simp add: evaluate_model_unsupervised_def)
qed
theorem all_background_returns_zeros_witness:
  "batches_loop toy_vocab [toy_feature] [[(0, [0, 0, 1, 0, 0], [0, 1, 1, 0, 0])]] ([], [])
     = Inr ([''O''], [''B-PER'']) \<and>
   set [''O''] = {''O''} \<and>
   evaluate_model_unsupervised toy_vocab [toy_feature] [[(0, [0, 0, 1, 0, 0], [0, 1, 1, 0, 0])]]
     (\<lambda>t p. Inl ZeroDivisionError) = Inr (0, 0, 0)"
proof -
  have h: "batches_loop toy_vocab [toy_feature] [[(0, [0, 0, 1, 0, 0], [0, 1, 1, 0, 0])]] ([], [])
     = Inr ([''O''], [''B-PER''])"
    by (simp add: toy_vocab_def toy_feature_def enumerate_eq_zip)
  have s: "set [''O''] = {''O''}" by simp
  from all_background_returns_zeros [OF h s] h s show ?thesis by blast
qed


section \<open>Closed forms of the conversion loops\<close>

lemma sub_token_loop_eq:
  "sub_token_loop i l ps (a, b, c) = (a @ replicate (length ps) i, b @ ps, c @ replicate (length ps) l)"
  by (induction ps arbitrary: a b c) (simp_all add: replicate_app_Cons_same)

lemma word_loop_eq:
  "\<exists>oi'. word_loop tk (List.enumerate n wl) (a, oi, b, c) =
     (a @ piece_origins tk n (map fst wl), oi', b @ all_pieces tk (map fst wl), c @ piece_labels tk wl)"
proof (induction wl arbitrary: n a oi b c)
  case Nil
  then show ?case by (simp add: piece_origins_def all_pieces_def piece_labels_def)
next
  case (Cons p wl)
  obtain w l where p: "p = (w, l)" by (cases p)
  from Cons.IH [of "Suc n" "a @ replicate (length (tokenize tk w)) n" "oi @ [length b]"
                   "b @ tokenize tk w" "c @ replicate (length (tokenize tk w)) l"]
  show ?case
    by (auto simp: p sub_token_loop_eq piece_origins_def all_pieces_def piece_labels_def)
qed

lemma length_piece_labels: "length (piece_labels tk wl) = length (all_pieces tk (map fst wl))"
  by (induction wl) (auto simp: piece_labels_def all_pieces_def)

lemma length_piece_origins: "length (piece_origins tk n ws) = length (all_pieces tk ws)"
  by (induction ws arbitrary: n) (auto simp: piece_origins_def all_pieces_def)

lemma frame_loop_eq:
  "frame_loop ps (a, b, c) = (a @ map fst ps, b @ replicate (length ps) 0, c @ map snd ps)"
  by (induction ps arbitrary: a b c) (auto simp: replicate_app_Cons_same)

lemma loss_mask_loop_eq:
  "length pre = n \<Longrightarrow>
   loss_mask_loop (List.enumerate n toks) (pre @ replicate (length toks) 1) =
     pre @ map (\<lambda>t. if startswith t ''##'' then 0 else 1) toks"
proof (induction toks arbitrary: pre n)
  case Nil
  then show ?case by simp
next
  case (Cons t toks)
  let ?b = "if startswith t ''##'' then 0 else (1::int)"
  have "loss_mask_loop (List.enumerate n (t # toks)) (pre @ replicate (length (t # toks)) 1)
        = loss_mask_loop (List.enumerate (Suc n) toks)
            (if startswith t ''##'' then (pre @ 1 # replicate (length toks) 1)[n := 0]
             else pre @ 1 # replicate (length toks) 1)"
    by simp
  also from Cons.prems
  have "(if startswith t ''##'' then (pre @ 1 # replicate (length toks) 1)[n := 0]
         else pre @ 1 # replicate (length toks) 1) = (pre @ [?b]) @ replicate (length toks) 1"
    by (simp add: list_update_append)
  also from Cons.prems
  have "loss_mask_loop (List.enumerate (Suc n) toks) ((pre @ [?b]) @ replicate (length toks) 1)
        = (pre @ [?b]) @ map (\<lambda>t. if startswith t ''##'' then 0 else 1) toks"
    by (intro Cons.IH) simp
  finally show ?case by simp
qed

lemma pad_loop_eq:
  "pad_loop m (ids, im, lm, sg, li) =
     (ids @ replicate (nat (m - int (length ids))) 0, im @ replicate (nat (m - int (length ids))) 0,
      lm @ replicate (nat (m - int (length ids))) 0, sg @ replicate (nat (m - int (length ids))) 0,
      li @ replicate (nat (m - int (length ids))) 0)"
proof (induction m "(ids, im, lm, sg, li)" arbitrary: ids im lm sg li rule: pad_loop.induct)
  case (1 m ids im lm sg li)
  show ?case
  proof (cases "int (length ids) < m")
    case True
    then have "nat (m - int (length ids)) = Suc (nat (m - int (length (ids @ [0]))))"
      by simp
    with True "1" show ?thesis
      by (subst pad_loop.simps) (simp add: replicate_app_Cons_same)
  next
    case False
    then show ?thesis by (subst pad_loop.simps) simp
  qed
qed

lemma length_slice_to:
  assumes "2 \<le> m"
  shows "int (length (slice_to xs (m - 2))) \<le> m - 2"
proof -
  from assms have e: "slice_to xs (m - 2) = take (nat (m - 2)) xs"
    unfolding slice_to_def by simp
  have "length (take (nat (m - 2)) xs) \<le> nat (m - 2)"
    by simp
  then have "int (length (take (nat (m - 2)) xs)) \<le> int (nat (m - 2))"
    by (simp only: of_nat_le_iff)
  also from assms have "int (nat (m - 2)) = m - 2" by simp
  finally show ?thesis by (simp only: e)
qed

lemma slice_to_all: "int (length xs) \<le> k \<Longrightarrow> slice_to xs k = xs"
  by (simp add: slice_to_def)

lemma length_slice_to_eq: "length xs = length ys \<Longrightarrow> length (slice_to xs k) = length (slice_to ys k)"
  by (simp add: slice_to_def)

lemma convert_labels_to_ids_length:
  "convert_labels_to_ids v ls = Inr ids \<Longrightarrow> length ids = length ls"
  by (induction ls arbitrary: ids) (auto split: option.splits sum.splits)

lemma convert_labels_to_ids_total:
  "\<forall>l \<in> set ls. labels_dict v l \<noteq> None \<Longrightarrow> \<exists>ids. convert_labels_to_ids v ls = Inr ids"
  by (induction ls) auto

lemma length_kept_labels: "length (kept_labels tk m ex) = length (kept_pieces tk m ex)"
  unfolding kept_labels_def kept_pieces_def
  by (rule length_slice_to_eq) (rule length_piece_labels)

lemma padded_length:
  "(int (n + padding m n) \<noteq> m) = (m < int n)"
  unfolding padding_def by linarith

lemma convert_example_eq:
  "convert_example v tk m uid idx ex =
     (case convert_labels_to_ids v (''O'' # kept_labels tk m ex @ [''O'']) of
        Inl e \<Rightarrow> Inl e
      | Inr lids \<Rightarrow>
          if m < int (length (framed (kept_pieces tk m ex))) then Inl AssertionError
          else Inr \<lparr>unique_id = uid, example_index = idx,
                 tokens = framed (kept_pieces tk m ex),
                 token_to_orig_map =
                   make_token_to_orig_map (piece_origins tk 0 (map fst (word_label_pairs ex))),
                 input_ids = map (token_id tk) (framed (kept_pieces tk m ex))
                   @ replicate (padding m (length (framed (kept_pieces tk m ex)))) 0,
                 input_mask = replicate (length (framed (kept_pieces tk m ex))) 1
                   @ replicate (padding m (length (framed (kept_pieces tk m ex)))) 0,
                 loss_mask = map (\<lambda>t. if startswith t ''##'' then 0 else 1)
                                 (framed (kept_pieces tk m ex))
                   @ replicate (padding m (length (framed (kept_pieces tk m ex)))) 0,
                 segment_ids = replicate (length (framed (kept_pieces tk m ex))) 0
                   @ replicate (padding m (length (framed (kept_pieces tk m ex)))) 0,
                 label_ids = Some (lids
                   @ replicate (padding m (length (framed (kept_pieces tk m ex)))) 0)\<rparr>)"
proof -
  let ?wl = "word_label_pairs ex"
  let ?P = "kept_pieces tk m ex"
  let ?L = "kept_labels tk m ex"
  obtain oi where w: "word_loop tk (List.enumerate 0 ?wl) ([], [], [], []) =
      (piece_origins tk 0 (map fst ?wl), oi, all_pieces tk (map fst ?wl), piece_labels tk ?wl)"
    using word_loop_eq [of tk 0 ?wl "[]" "[]" "[]" "[]"] by auto
  have len: "length ?L = length ?P" by (rule length_kept_labels)
  have fr: "frame_loop (zip ?P ?L) ([''[CLS]''], [0], [''O'']) =
        (''[CLS]'' # ?P, 0 # replicate (length ?P) 0, ''O'' # ?L)"
    using len by (simp add: frame_loop_eq)
  have lm: "loss_mask_loop (List.enumerate 0 (framed ?P)) (replicate (length (framed ?P)) 1)
        = map (\<lambda>t. if startswith t ''##'' then 0 else 1) (framed ?P)"
    using loss_mask_loop_eq [of "[]" 0 "framed ?P"] by simp
  have seg: "0 # replicate (length ?P) 0 @ [0::int] = replicate (length (framed ?P)) 0"
    by (simp add: framed_def replicate_append_same)
  show ?thesis
  proof (cases "convert_labels_to_ids v (''O'' # ?L @ [''O''])")
    case (Inl e)
    then show ?thesis
      unfolding convert_example_def word_label_pairs_def [symmetric] w
      by (simp add: Let_def kept_pieces_def [symmetric] kept_labels_def [symmetric] fr)
  next
    case (Inr lids)
    then have ll: "length lids = length (framed ?P)"
      using convert_labels_to_ids_length [OF Inr] len by (simp add: framed_def)
    have fp: "(''[CLS]'' # ?P) @ [''[SEP]''] = framed ?P"
      by (simp add: framed_def)
    have sg: "(0 # replicate (length ?P) 0) @ [0::int] = replicate (length (framed ?P)) 0"
      using seg by simp
    have pl: "pad_loop m (map (token_id tk) (framed ?P), replicate (length (framed ?P)) 1,
                map (\<lambda>t. if startswith t ''##'' then 0 else 1) (framed ?P),
                replicate (length (framed ?P)) 0, lids)
          = (map (token_id tk) (framed ?P) @ replicate (padding m (length (framed ?P))) 0,
             replicate (length (framed ?P)) 1 @ replicate (padding m (length (framed ?P))) 0,
             map (\<lambda>t. if startswith t ''##'' then 0 else 1) (framed ?P)
               @ replicate (padding m (length (framed ?P))) 0,
             replicate (length (framed ?P)) 0 @ replicate (padding m (length (framed ?P))) 0,
             lids @ replicate (padding m (length (framed ?P))) 0)"
      by (simp add: pad_loop_eq padding_def)
    have lens:
      "length (map (token_id tk) (framed ?P) @ replicate (padding m (length (framed ?P))) (0::int))
         = length (framed ?P) + padding m (length (framed ?P))"
      "length (replicate (length (framed ?P)) (1::int) @ replicate (padding m (length (framed ?P))) 0)
         = length (framed ?P) + padding m (length (framed ?P))"
      "length (map (\<lambda>t. if startswith t ''##'' then 0 else (1::int)) (framed ?P)
               @ replicate (padding m (length (framed ?P))) 0)
         = length (framed ?P) + padding m (length (framed ?P))"
      "length (replicate (length (framed ?P)) (0::int) @ replicate (padding m (length (framed ?P))) 0)
         = length (framed ?P) + padding m (length (framed ?P))"
      "length (lids @ replicate (padding m (length (framed ?P))) 0)
         = length (framed ?P) + padding m (length (framed ?P))"
      using ll by simp_all
    have cl: "convert_labels_to_ids v ((''O'' # ?L) @ [''O'']) = Inr lids"
      using Inr by simp
    have asrt: "(int (length (framed ?P) + padding m (length (framed ?P))) \<noteq> m \<or>
                 int (length (framed ?P) + padding m (length (framed ?P))) \<noteq> m \<or>
                 int (length (framed ?P) + padding m (length (framed ?P))) \<noteq> m \<or>
                 int (length (framed ?P) + padding m (length (framed ?P))) \<noteq> m \<or>
                 int (length (framed ?P) + padding m (length (framed ?P))) \<noteq> m)
                = (m < int (length (framed ?P)))"
      by (simp only: padded_length disj_absorb)
    show ?thesis
      unfolding convert_example_def word_label_pairs_def [symmetric] w Let_def prod.case
        kept_pieces_def [symmetric] kept_labels_def [symmetric]
      unfolding fr prod.case
      unfolding fp sg convert_tokens_to_ids_def length_map lm cl sum.case
      unfolding pl prod.case lens asrt
      unfolding Inr sum.case
      by (rule refl)
  qed
qed

lemma unsupervised_sub_token_loop_eq:
  "unsupervised_sub_token_loop i ps (a, b) = (a @ replicate (length ps) i, b @ ps)"
  by (induction ps arbitrary: a b) (simp_all add: replicate_app_Cons_same)

lemma unsupervised_word_loop_eq:
  "\<exists>oi'. unsupervised_word_loop tk (List.enumerate n ws) (a, oi, b) =
     (a @ piece_origins tk n ws, oi', b @ all_pieces tk ws)"
proof (induction ws arbitrary: n a oi b)
  case Nil
  then show ?case by (simp add: piece_origins_def all_pieces_def)
next
  case (Cons w ws)
  from Cons.IH [of "Suc n" "a @ replicate (length (tokenize tk w)) n" "oi @ [length b]"
                   "b @ tokenize tk w"]
  show ?case
    by (auto simp: unsupervised_sub_token_loop_eq piece_origins_def all_pieces_def)
qed

lemma unsupervised_frame_loop_eq:
  "unsupervised_frame_loop ps (a, b) = (a @ ps, b @ replicate (length ps) 0)"
  by (induction ps arbitrary: a b) (auto simp: replicate_app_Cons_same)

lemma unsupervised_pad_loop_eq:
  "unsupervised_pad_loop m (ids, im, lm, sg) =
     (ids @ replicate (nat (m - int (length ids))) 0, im @ replicate (nat (m - int (length ids))) 0,
      lm @ replicate (nat (m - int (length ids))) 0, sg @ replicate (nat (m - int (length ids))) 0)"
proof (induction m "(ids, im, lm, sg)" arbitrary: ids im lm sg rule: unsupervised_pad_loop.induct)
  case (1 m ids im lm sg)
  show ?case
  proof (cases "int (length ids) < m")
    case True
    then have "nat (m - int (length ids)) = Suc (nat (m - int (length (ids @ [0]))))"
      by simp
    with True "1" show ?thesis
      by (subst unsupervised_pad_loop.simps) (simp add: replicate_app_Cons_same)
  next
    case False
    then show ?thesis by (subst unsupervised_pad_loop.simps) simp
  qed
qed

lemma convert_unsupervised_example_eq:
  "convert_unsupervised_example tk m uid idx ex =
     (if m < int (length (framed (unsupervised_kept_pieces tk m ex))) then Inl AssertionError
      else Inr \<lparr>unique_id = uid, example_index = idx,
             tokens = framed (unsupervised_kept_pieces tk m ex),
             token_to_orig_map = make_token_to_orig_map (piece_origins tk 0 (unsupervised_tokens ex)),
             input_ids = map (token_id tk) (framed (unsupervised_kept_pieces tk m ex))
               @ replicate (padding m (length (framed (unsupervised_kept_pieces tk m ex)))) 0,
             input_mask = replicate (length (framed (unsupervised_kept_pieces tk m ex))) 1
               @ replicate (padding m (length (framed (unsupervised_kept_pieces tk m ex)))) 0,
             loss_mask = map (\<lambda>t. if startswith t ''##'' then 0 else 1)
                             (framed (unsupervised_kept_pieces tk m ex))
               @ replicate (padding m (length (framed (unsupervised_kept_pieces tk m ex)))) 0,
             segment_ids = replicate (length (framed (unsupervised_kept_pieces tk m ex))) 0
               @ replicate (padding m (length (framed (unsupervised_kept_pieces tk m ex)))) 0,
             label_ids = None\<rparr>)"
proof -
  let ?P = "unsupervised_kept_pieces tk m ex"
  obtain oi where w: "unsupervised_word_loop tk (List.enumerate 0 (unsupervised_tokens ex)) ([], [], []) =
      (piece_origins tk 0 (unsupervised_tokens ex), oi, all_pieces tk (unsupervised_tokens ex))"
    using unsupervised_word_loop_eq [of tk 0 "unsupervised_tokens ex" "[]" "[]" "[]"] by auto
  have fr: "unsupervised_frame_loop ?P ([''[CLS]''], [0]) =
        (''[CLS]'' # ?P, 0 # replicate (length ?P) 0)"
    by (simp add: unsupervised_frame_loop_eq)
  have lm: "loss_mask_loop (List.enumerate 0 (framed ?P)) (replicate (length (framed ?P)) 1)
        = map (\<lambda>t. if startswith t ''##'' then 0 else 1) (framed ?P)"
    using loss_mask_loop_eq [of "[]" 0 "framed ?P"] by simp
  have fp: "(''[CLS]'' # ?P) @ [''[SEP]''] = framed ?P"
    by (simp add: framed_def)
  have sg: "(0 # replicate (length ?P) 0) @ [0::int] = replicate (length (framed ?P)) 0"
    by (simp add: framed_def replicate_append_same)
  have pl: "unsupervised_pad_loop m (map (token_id tk) (framed ?P), replicate (length (framed ?P)) 1,
                map (\<lambda>t. if startswith t ''##'' then 0 else 1) (framed ?P),
                replicate (length (framed ?P)) 0)
          = (map (token_id tk) (framed ?P) @ replicate (padding m (length (framed ?P))) 0,
             replicate (length (framed ?P)) 1 @ replicate (padding m (length (framed ?P))) 0,
             map (\<lambda>t. if startswith t ''##'' then 0 else 1) (framed ?P)
               @ replicate (padding m (length (framed ?P))) 0,
             replicate (length (framed ?P)) 0 @ replicate (padding m (length (framed ?P))) 0)"
    by (simp add: unsupervised_pad_loop_eq padding_def)
  have lens:
    "length (map (token_id tk) (framed ?P) @ replicate (padding m (length (framed ?P))) (0::int))
       = length (framed ?P) + padding m (length (framed ?P))"
    "length (replicate (length (framed ?P)) (1::int) @ replicate (padding m (length (framed ?P))) 0)
       = length (framed ?P) + padding m (length (framed ?P))"
    "length (map (\<lambda>t. if startswith t ''##'' then 0 else (1::int)) (framed ?P)
             @ replicate (padding m (length (framed ?P))) 0)
       = length (framed ?P) + padding m (length (framed ?P))"
    "length (replicate (length (framed ?P)) (0::int) @ replicate (padding m (length (framed ?P))) 0)
       = length (framed ?P) + padding m (length (framed ?P))"
    by simp_all
  have asrt: "(int (length (framed ?P) + padding m (length (framed ?P))) \<noteq> m \<or>
               int (length (framed ?P) + padding m (length (framed ?P))) \<noteq> m \<or>
               int (length (framed ?P) + padding m (length (framed ?P))) \<noteq> m \<or>
               int (length (framed ?P) + padding m (length (framed ?P))) \<noteq> m)
              = (m < int (length (framed ?P)))"
    by (simp only: padded_length disj_absorb)
  show ?thesis
    unfolding convert_unsupervised_example_def w Let_def prod.case
      unsupervised_kept_pieces_def [symmetric]
    unfolding fr prod.case
    unfolding fp sg convert_tokens_to_ids_def length_map lm
    unfolding pl prod.case lens asrt
    by (rule refl)
qed

lemma length_framed: "length (framed ps) = length ps + 2"
  by (simp add: framed_def)

lemma framed_fits:
  assumes "2 \<le> m"
  shows "\<not> m < int (length (framed (slice_to xs (m - 2))))"
  using length_slice_to [OF assms, of xs] by (simp add: length_framed)

lemma framed_too_long: "m < 2 \<Longrightarrow> m < int (length (framed ps))"
  by (simp add: length_framed)

lemma features_loop_nth:
  "features_loop v tk m uid (List.enumerate n exs) = Inr fs \<Longrightarrow>
   length fs = length exs \<and>
   (\<forall>i < length exs. convert_example v tk m (uid + int i) (n + i) (exs ! i) = Inr (fs ! i))"
proof (induction exs arbitrary: uid n fs)
  case Nil
  then show ?case by simp
next
  case (Cons ex exs)
  from Cons.prems obtain f fs' where
    f: "convert_example v tk m uid n ex = Inr f" and
    r: "features_loop v tk m (uid + 1) (List.enumerate (Suc n) exs) = Inr fs'" and
    fs: "fs = f # fs'"
    by (auto split: sum.splits)
  from Cons.IH [OF r] have l: "length fs' = length exs"
    and n: "\<And>i. i < length exs \<Longrightarrow>
              convert_example v tk m (uid + 1 + int i) (Suc n + i) (exs ! i) = Inr (fs' ! i)"
    by auto
  have "convert_example v tk m (uid + int i) (n + i) ((ex # exs) ! i) = Inr (fs ! i)"
    if "i < length (ex # exs)" for i
  proof (cases i)
    case 0
    with f fs show ?thesis by simp
  next
    case (Suc j)
    with that n [of j] fs show ?thesis by (simp add: algebra_simps)
  qed
  with l fs show ?case by simp
qed

lemma features_loop_total:
  "(\<And>uid i ex. ex \<in> set exs \<Longrightarrow> \<exists>f. convert_example v tk m uid i ex = Inr f) \<Longrightarrow>
   \<exists>fs. features_loop v tk m uid (List.enumerate n exs) = Inr fs"
proof (induction exs arbitrary: uid n)
  case Nil
  then show ?case by simp
next
  case (Cons ex exs)
  from Cons.prems [of ex uid n] obtain f where f: "convert_example v tk m uid n ex = Inr f"
    by auto
  from Cons.IH [of "uid + 1" "Suc n"] Cons.prems
  obtain fs where "features_loop v tk m (uid + 1) (List.enumerate (Suc n) exs) = Inr fs"
    by auto
  with f show ?case by simp
qed

lemma unsupervised_features_loop_nth:
  "unsupervised_features_loop tk m uid (List.enumerate n exs) = Inr fs \<Longrightarrow>
   length fs = length exs \<and>
   (\<forall>i < length exs. convert_unsupervised_example tk m (uid + int i) (n + i) (exs ! i) = Inr (fs ! i))"
proof (induction exs arbitrary: uid n fs)
  case Nil
  then show ?case by simp
next
  case (Cons ex exs)
  from Cons.prems obtain f fs' where
    f: "convert_unsupervised_example tk m uid n ex = Inr f" and
    r: "unsupervised_features_loop tk m (uid + 1) (List.enumerate (Suc n) exs) = Inr fs'" and
    fs: "fs = f # fs'"
    by (auto split: sum.splits)
  from Cons.IH [OF r] have l: "length fs' = length exs"
    and n: "\<And>i. i < length exs \<Longrightarrow>
              convert_unsupervised_example tk m (uid + 1 + int i) (Suc n + i) (exs ! i) = Inr (fs' ! i)"
    by auto
  have "convert_unsupervised_example tk m (uid + int i) (n + i) ((ex # exs) ! i) = Inr (fs ! i)"
    if "i < length (ex # exs)" for i
  proof (cases i)
    case 0
    with f fs show ?thesis by simp
  next
    case (Suc j)
    with that n [of j] fs show ?thesis by (simp add: algebra_simps)
  qed
  with l fs show ?case by simp
qed

lemma unsupervised_features_loop_total:
  "2 \<le> m \<Longrightarrow> \<exists>fs. unsupervised_features_loop tk m uid (List.enumerate n exs) = Inr fs"
proof (induction exs arbitrary: uid n)
  case Nil
  then show ?case by simp
next
  case (Cons ex exs)
  from Cons.prems have "\<exists>f. convert_unsupervised_example tk m uid n ex = Inr f"
    using framed_fits [of m "all_pieces tk (unsupervised_tokens ex)"]
    by (simp add: convert_unsupervised_example_eq unsupervised_kept_pieces_def)
  moreover from Cons.IH [OF Cons.prems, of "uid + 1" "Suc n"]
  have "\<exists>fs. unsupervised_features_loop tk m (uid + 1) (List.enumerate (Suc n) exs) = Inr fs" .
  ultimately show ?case by auto
qed

lemma convert_example_arrays:
  "convert_example v tk m uid idx ex = Inr f \<Longrightarrow> arrays_have_length f m \<and> label_ids f \<noteq> None"
  by (auto simp: convert_example_def Let_def arrays_have_length_def
           split: prod.splits sum.splits if_splits)

lemma convert_unsupervised_example_arrays:
  "convert_unsupervised_example tk m uid idx ex = Inr f \<Longrightarrow>
   arrays_have_length f m \<and> label_ids f = None"
  by (auto simp: convert_unsupervised_example_def Let_def arrays_have_length_def
           split: prod.splits sum.splits if_splits)

lemma converted_feature:
  assumes "convert_examples_to_features v exs tk m = Inr (v', fs)" and "f \<in> set fs"
  shows "v' = build v \<and> (\<exists>uid idx ex. ex \<in> set exs \<and> convert_example (build v) tk m uid idx ex = Inr f)"
proof -
  from assms(1) have v': "v' = build v"
    and l: "features_loop (build v) tk m 1000000000 (List.enumerate 0 exs) = Inr fs"
    by (auto simp: convert_examples_to_features_def Let_def split: list.splits sum.splits)
  from assms(2) obtain i where i: "i < length fs" "fs ! i = f"
    by (auto simp: in_set_conv_nth)
  from features_loop_nth [OF l] i
  have "i < length exs" "convert_example (build v) tk m (1000000000 + int i) (0 + i) (exs ! i) = Inr f"
    by auto
  then show ?thesis using v' by (metis nth_mem)
qed

lemma converted_unsupervised_feature:
  assumes "convert_unsupervised_examples_to_features exs tk m = Inr fs" and "f \<in> set fs"
  shows "\<exists>uid idx ex. ex \<in> set exs \<and> convert_unsupervised_example tk m uid idx ex = Inr f"
proof -
  from assms(1) have l: "unsupervised_features_loop tk m 2000000000 (List.enumerate 0 exs) = Inr fs"
    by (simp add: convert_unsupervised_examples_to_features_def)
  from assms(2) obtain i where i: "i < length fs" "fs ! i = f"
    by (auto simp: in_set_conv_nth)
  from unsupervised_features_loop_nth [OF l] i
  have "i < length exs"
    "convert_unsupervised_example tk m (2000000000 + int i) (0 + i) (exs ! i) = Inr f"
    by auto
  then show ?thesis by (metis nth_mem)
qed

lemma set_piece_labels: "set (piece_labels tk wl) \<subseteq> snd ` set wl"
  by (induction wl) (auto simp: piece_labels_def)

lemma set_slice_to: "set (slice_to xs k) \<subseteq> set xs"
  by (auto simp: slice_to_def dest: in_set_takeD)

lemma set_kept_labels: "set (kept_labels tk m ex) \<subseteq> set (example_labels ex)"
proof -
  have "set (kept_labels tk m ex) \<subseteq> snd ` set (word_label_pairs ex)"
    unfolding kept_labels_def using set_slice_to set_piece_labels by fast
  also have "\<dots> \<subseteq> set (example_labels ex)"
    by (auto simp: word_label_pairs_def dest: set_zip_rightD)
  finally show ?thesis .
qed

lemma convert_example_total:
  assumes "2 \<le> m" and "set (example_labels ex) \<subseteq> fset (label_set v)"
  shows "\<exists>f. convert_example (build v) tk m uid idx ex = Inr f"
proof -
  have "labels_dict (build v) l \<noteq> None" if "l \<in> set (''O'' # kept_labels tk m ex @ [''O''])" for l
  proof -
    from that assms(2) set_kept_labels [of tk m ex] have "l |\<in>| label_set v \<or> l = ''O''"
      by auto
    then show ?thesis using labels_dict_build_Some by fastforce
  qed
  then obtain lids where "convert_labels_to_ids (build v) (''O'' # kept_labels tk m ex @ [''O'']) = Inr lids"
    using convert_labels_to_ids_total by blast
  moreover have "\<not> m < int (length (framed (kept_pieces tk m ex)))"
    unfolding kept_pieces_def using assms(1) by (rule framed_fits)
  ultimately show ?thesis
    by (simp add: convert_example_eq)
qed

lemma convert_examples_to_features_total:
  assumes "2 \<le> m" and "exs \<noteq> []"
    and "\<forall>ex \<in> set exs. set (example_labels ex) \<subseteq> fset (label_set v)"
  shows "\<exists>v' fs. convert_examples_to_features v exs tk m = Inr (v', fs) \<and> length fs = length exs"
proof -
  have "\<exists>fs. features_loop (build v) tk m 1000000000 (List.enumerate 0 exs) = Inr fs"
    using assms(1,3) by (intro features_loop_total convert_example_total) auto
  then obtain fs where l: "features_loop (build v) tk m 1000000000 (List.enumerate 0 exs) = Inr fs"
    by blast
  then have "length fs = length exs"
    using features_loop_nth by blast
  with l assms(2) show ?thesis
    by (cases exs) (simp_all add: convert_examples_to_features_def)
qed

lemma convert_unsupervised_examples_to_features_total:
  assumes "2 \<le> m"
  shows "\<exists>fs. convert_unsupervised_examples_to_features exs tk m = Inr fs \<and> length fs = length exs"
proof -
  from assms obtain fs where
    l: "unsupervised_features_loop tk m 2000000000 (List.enumerate 0 exs) = Inr fs"
    using unsupervised_features_loop_total by blast
  then have "length fs = length exs"
    using unsupervised_features_loop_nth by blast
  with l show ?thesis
    by (simp add: convert_unsupervised_examples_to_features_def)
qed

lemma John_labels_known:
  "\<forall>ex \<in> set [John_example]. set (example_labels ex) \<subseteq> fset (label_set John_vocab)"
  by (simp add: John_vocab_def update_def LabelVocab_init_def John_example_def)

lemma John_converts:
  "\<exists>w h. convert_examples_to_features John_vocab [John_example] one_piece_tokenizer 10 = Inr (w, [h])"
proof -
  obtain w hs where
    c: "convert_examples_to_features John_vocab [John_example] one_piece_tokenizer 10 = Inr (w, hs)"
    and l: "length hs = length [John_example]"
    using convert_examples_to_features_total [of 10 "[John_example]" John_vocab one_piece_tokenizer]
      John_labels_known by auto
  from l obtain h where "hs = [h]"
    by (cases hs) auto
  with c show ?thesis by blast
qed

lemma John_masks: "converted_loss_masks John_vocab [John_example] one_piece_tokenizer 10
   = Inr [[1, 1, 1, 1, 1, 1, 0, 0, 0, 0]]"
  by code_simp

lemma John_label_ids:
  "converted_label_ids John_vocab [John_example] one_piece_tokenizer 10
     = Inr [Some [0, 2, 0, 0, 1, 0, 0, 0, 0, 0]]"
  by code_simp

lemma John_argmax: "argmax_rows John_logits = Inr [0, 2, 0, 0, 1, 0, 0, 0, 0, 0]"
  by code_simp

section \<open>Length of the feature arrays\<close>

text \<open>
  Claim C7. Every feature that the conversion of labeled examples or of unlabeled examples
  returns has its input ids, input mask, loss mask and segment ids of length exactly
  \<open>max_seq_length\<close>, and its label ids too when it has them (the labeled features have
  them, the unlabeled ones do not). For \<open>max_seq_length\<close> of at least two the
  conversion does return one feature per example, provided the list of labeled examples is not
  empty and their labels are in the vocabulary's set. Below two, the assertions on the lengths
  fail and no feature is returned.
\<close>

theorem feature_arrays_length:
  "(convert_examples_to_features v exs tk m = Inr (v', fs) \<and> f \<in> set fs \<longrightarrow>
      arrays_have_length f m \<and> label_ids f \<noteq> None) \<and>
   (convert_unsupervised_examples_to_features uexs tk m = Inr ufs \<and> g \<in> set ufs \<longrightarrow>
      arrays_have_length g m \<and> label_ids g = None) \<and>
   (2 \<le> m \<and> exs \<noteq> [] \<and> (\<forall>ex \<in> set exs. set (example_labels ex) \<subseteq> fset (label_set v)) \<longrightarrow>
      (\<exists>w hs. convert_examples_to_features v exs tk m = Inr (w, hs) \<and> length hs = length exs)) \<and>
   (2 \<le> m \<longrightarrow>
      (\<exists>hs. convert_unsupervised_examples_to_features uexs tk m = Inr hs \<and>
            length hs = length uexs))"
proof (intro conjI impI)
  assume a: "convert_examples_to_features v exs tk m = Inr (v', fs) \<and> f \<in> set fs"
  then obtain uid idx ex where "convert_example (build v) tk m uid idx ex = Inr f"
    using converted_feature by blast
  then have r: "arrays_have_length f m \<and> label_ids f \<noteq> None"
    by (rule convert_example_arrays)
  from r show "arrays_have_length f m" by simp
  from r show "label_ids f \<noteq> None" by simp
next
  assume a: "convert_unsupervised_examples_to_features uexs tk m = Inr ufs \<and> g \<in> set ufs"
  then obtain uid idx ex where "convert_unsupervised_example tk m uid idx ex = Inr g"
    using converted_unsupervised_feature by blast
  then have r: "arrays_have_length g m \<and> label_ids g = None"
    by (rule convert_unsupervised_example_arrays)
  from r show "arrays_have_length g m" by simp
  from r show "label_ids g = None" by simp
next
  assume "2 \<le> m \<and> exs \<noteq> [] \<and> (\<forall>ex \<in> set exs. set (example_labels ex) \<subseteq> fset (label_set v))"
  then show "\<exists>w hs. convert_examples_to_features v exs tk m = Inr (w, hs) \<and> length hs = length exs"
    using convert_examples_to_features_total by blast
next
  assume "2 \<le> m"
  then show "\<exists>hs. convert_unsupervised_examples_to_features uexs tk m = Inr hs \<and>
                  length hs = length uexs"
    by (rule convert_unsupervised_examples_to_features_total)
qed

theorem feature_arrays_length_witness:
  "(\<exists>w h. convert_examples_to_features John_vocab [John_example] one_piece_tokenizer 10 = Inr (w, [h])
          \<and> arrays_have_length h 10 \<and> label_ids h \<noteq> None) \<and>
   (\<exists>g. convert_unsupervised_examples_to_features [John_sentence] one_piece_tokenizer 10 = Inr [g]
          \<and> arrays_have_length g 10 \<and> label_ids g = None)"
proof -
  note t = feature_arrays_length [where v = John_vocab and exs = "[John_example]"
      and uexs = "[John_sentence]" and tk = one_piece_tokenizer and m = 10]
  from t John_labels_known obtain w hs where
    c: "convert_examples_to_features John_vocab [John_example] one_piece_tokenizer 10 = Inr (w, hs)"
    and l: "length hs = length [John_example]"
    by fastforce
  from l obtain h where hs: "hs = [h]"
    by (cases hs) auto
  from t [where v' = w and fs = hs and f = h] c hs
  have 1: "arrays_have_length h 10 \<and> label_ids h \<noteq> None" by simp
  from t obtain gs where
    d: "convert_unsupervised_examples_to_features [John_sentence] one_piece_tokenizer 10 = Inr gs"
    and k: "length gs = length [John_sentence]"
    by fastforce
  from k obtain g where gs: "gs = [g]"
    by (cases gs) auto
  from t [where ufs = gs and g = g] d gs
  have 2: "arrays_have_length g 10 \<and> label_ids g = None" by simp
  from c hs 1 d gs 2 show ?thesis by blast
qed

section \<open>The loss mask\<close>

lemma convert_example_loss_mask:
  assumes "convert_example v tk m uid idx ex = Inr f"
  shows "\<exists>ps k. tokens f = framed ps \<and>
           loss_mask f = map (\<lambda>t. if startswith t ''##'' then 0 else 1) (framed ps) @ replicate k 0 \<and>
           int (length (framed ps) + k) = m"
proof -
  let ?P = "kept_pieces tk m ex"
  let ?k = "padding m (length (framed ?P))"
  from assms have n: "\<not> m < int (length (framed ?P))"
    by (auto simp: convert_example_eq split: sum.splits if_splits)
  with assms have "tokens f = framed ?P"
    and "loss_mask f = map (\<lambda>t. if startswith t ''##'' then 0 else 1) (framed ?P) @ replicate ?k 0"
    by (auto simp: convert_example_eq split: sum.splits)
  moreover from n have "int (length (framed ?P) + ?k) = m"
    using padded_length [of "length (framed ?P)" m] by blast
  ultimately show ?thesis by blast
qed

lemma startswith_markers:
  "\<not> startswith ''[CLS]'' ''##''" "\<not> startswith ''[SEP]'' ''##''"
  by (simp_all add: startswith_def)

lemma framed_nth:
  "framed ps ! 0 = ''[CLS]''" "framed ps ! (length (framed ps) - 1) = ''[SEP]''"
  by (simp_all add: framed_def nth_append)

lemma mask_nth:
  fixes toks :: "string list"
  defines "g \<equiv> \<lambda>t. if startswith t ''##'' then 0 else (1::int)"
  assumes "i < length toks + k"
  shows "(map g toks @ replicate k 0) ! i = (if i < length toks \<and> \<not> startswith (toks ! i) ''##'' then 1 else 0)"
  using assms by (auto simp: nth_append)

text \<open>
  Claim C1, as the code has it. The loss mask of a converted labeled example has length
  \<open>max_seq_length\<close>; it is 0 at the positions of tokens that start with \<open>##\<close> and
  at the padding positions, and 1 at every other position, the begin marker \<open>[CLS]\<close>
  and the end marker \<open>[SEP]\<close> included. For the sentence \<open>John lives in Paris\<close>,
  one piece per word, and \<open>max_seq_length\<close> 10 it is \<open>[1,1,1,1,1,1,0,0,0,0]\<close>.
\<close>

theorem loss_mask_on_non_continuation_tokens:
  "(convert_examples_to_features v exs tk m = Inr (v', fs) \<and> f \<in> set fs \<longrightarrow>
      int (length (loss_mask f)) = m \<and>
      2 \<le> length (tokens f) \<and> length (tokens f) \<le> length (loss_mask f) \<and>
      tokens f ! 0 = ''[CLS]'' \<and> tokens f ! (length (tokens f) - 1) = ''[SEP]'' \<and>
      loss_mask f ! 0 = 1 \<and> loss_mask f ! (length (tokens f) - 1) = 1 \<and>
      (\<forall>i < length (loss_mask f).
         loss_mask f ! i =
           (if i < length (tokens f) \<and> \<not> startswith (tokens f ! i) ''##'' then 1 else 0))) \<and>
   converted_loss_masks John_vocab [John_example] one_piece_tokenizer 10
     = Inr [[1, 1, 1, 1, 1, 1, 0, 0, 0, 0]]"
proof (intro conjI impI)
  show "converted_loss_masks John_vocab [John_example] one_piece_tokenizer 10
     = Inr [[1, 1, 1, 1, 1, 1, 0, 0, 0, 0]]"
    by (rule John_masks)
next
  assume a: "convert_examples_to_features v exs tk m = Inr (v', fs) \<and> f \<in> set fs"
  then obtain uid idx ex where "convert_example (build v) tk m uid idx ex = Inr f"
    using converted_feature by blast
  then obtain ps k where t: "tokens f = framed ps"
    and l: "loss_mask f = map (\<lambda>t. if startswith t ''##'' then 0 else 1) (framed ps) @ replicate k 0"
    and n: "int (length (framed ps) + k) = m"
    using convert_example_loss_mask by blast
  have len: "length (loss_mask f) = length (framed ps) + k"
    by (simp add: l)
  have nth: "loss_mask f ! i =
      (if i < length (tokens f) \<and> \<not> startswith (tokens f ! i) ''##'' then 1 else 0)"
    if "i < length (loss_mask f)" for i
    using that mask_nth [of i "framed ps" k] by (simp add: l t)
  have two: "2 \<le> length (tokens f)"
    by (simp add: t length_framed)
  have lt: "length (tokens f) \<le> length (loss_mask f)"
    by (simp add: len t)
  show "int (length (loss_mask f)) = m" using len n by simp
  show "2 \<le> length (tokens f)" by (rule two)
  show "length (tokens f) \<le> length (loss_mask f)" by (rule lt)
  show "tokens f ! 0 = ''[CLS]''" by (simp add: t framed_nth)
  show "tokens f ! (length (tokens f) - 1) = ''[SEP]''"
    unfolding t by (rule framed_nth)
  have "tokens f ! 0 = ''[CLS]''" by (simp add: t framed_nth)
  moreover have "0 < length (tokens f)" "0 < length (loss_mask f)"
    using two lt by linarith+
  ultimately show "loss_mask f ! 0 = 1"
    using nth [of 0] by (simp only: startswith_markers simp_thms if_True)
  have "tokens f ! (length (tokens f) - 1) = ''[SEP]''"
    unfolding t by (rule framed_nth)
  moreover have "length (tokens f) - 1 < length (tokens f)" "length (tokens f) - 1 < length (loss_mask f)"
    using two lt by linarith+
  ultimately show "loss_mask f ! (length (tokens f) - 1) = 1"
    using nth [of "length (tokens f) - 1"] by (simp only: startswith_markers simp_thms if_True)
  show "\<forall>i < length (loss_mask f). loss_mask f ! i =
           (if i < length (tokens f) \<and> \<not> startswith (tokens f ! i) ''##'' then 1 else 0)"
    using nth by blast
qed

theorem loss_mask_on_non_continuation_tokens_witness:
  "\<exists>w h. convert_examples_to_features John_vocab [John_example] one_piece_tokenizer 10 = Inr (w, [h])
      \<and> int (length (loss_mask h)) = 10 \<and> tokens h ! 0 = ''[CLS]'' \<and> loss_mask h ! 0 = 1
      \<and> tokens h ! (length (tokens h) - 1) = ''[SEP]'' \<and> loss_mask h ! (length (tokens h) - 1) = 1"
proof -
  obtain w hs where
    c: "convert_examples_to_features John_vocab [John_example] one_piece_tokenizer 10 = Inr (w, hs)"
    and l: "length hs = length [John_example]"
    using convert_examples_to_features_total [of 10 "[John_example]" John_vocab one_piece_tokenizer]
      John_labels_known by auto
  from l obtain h where hs: "hs = [h]"
    by (cases hs) auto
  from loss_mask_on_non_continuation_tokens [of John_vocab "[John_example]" one_piece_tokenizer 10 w hs h]
    c hs
  show ?thesis by simp
qed

text \<open>
  Claim C1 as stated fails. The mask of the sentence \<open>John lives in Paris\<close> is 1 at
  both markers, so it is not \<open>[0,1,1,1,1,0,0,0,0,0]\<close>. And a word that the tokenizer
  splits into pieces without the \<open>##\<close> prefix (\<open>U.S.\<close> split at its punctuation)
  has the mask 1 at all its pieces, although positions 2, 3 and 4 repeat the original-word
  index of position 1.
\<close>

theorem loss_mask_counterexample:
  "converted_loss_masks John_vocab [John_example] one_piece_tokenizer 10
     = Inr [[1, 1, 1, 1, 1, 1, 0, 0, 0, 0]] \<and>
   converted_loss_masks John_vocab [John_example] one_piece_tokenizer 10
     \<noteq> Inr [[0, 1, 1, 1, 1, 0, 0, 0, 0, 0]] \<and>
   converted_loss_masks US_vocab [US_example] punctuation_tokenizer 8
     = Inr [[1, 1, 1, 1, 1, 1, 1, 0]] \<and>
   converted_orig_maps US_vocab [US_example] punctuation_tokenizer 8
     = Inr [[None, Some 0, Some 0, Some 0, Some 0, Some 1, None]]"
  by code_simp

section \<open>Reading the feature cache\<close>



lemma load_train_features_miss:
  "read_cache pk files path = None \<Longrightarrow>
   load_train_features pk files path lr gr v exs tk m =
     (case convert_examples_to_features v exs tk m of
        Inl e \<Rightarrow> Inl e
      | Inr (v', fs) \<Rightarrow>
          (case after_recomputation pk files path lr gr fs of
             Inl e \<Rightarrow> Inl e
           | Inr files' \<Rightarrow> Inr (fs, files', v')))"
  by (simp add: load_train_features_def after_recomputation_def split: sum.splits prod.splits)















text \<open>
  What the write raises is raised by the loading: with a cache file that cannot be opened
  for writing the recomputed features are lost to a \<open>PermissionError\<close>, and in a process
  with \<open>local_rank\<close> 0 an exception of \<open>get_rank\<close> ends the loading as well.
\<close>

lemma cache_write_errors_propagate:
  "load_train_features identity_pickle read_only_files ''train.txt_bert_10'' (- 1) (Inr 0)
      John_vocab [John_example] one_piece_tokenizer 10 = Inl PermissionError \<and>
   load_train_features identity_pickle no_files ''train.txt_bert_10'' 0 (Inl ValueError)
      John_vocab [John_example] one_piece_tokenizer 10 = Inl ValueError"
proof -
  from John_converts obtain w h where
    c: "convert_examples_to_features John_vocab [John_example] one_piece_tokenizer 10 = Inr (w, [h])"
    by blast
  have r: "read_cache identity_pickle read_only_files ''train.txt_bert_10'' = None"
    "read_cache identity_pickle no_files ''train.txt_bert_10'' = None"
    by (simp_all add: read_cache_def no_files_def read_only_files_def)
  have 1: "after_recomputation identity_pickle read_only_files ''train.txt_bert_10'' (- 1) (Inr 0) [h]
           = Inl PermissionError"
    by (simp add: after_recomputation_def is_writer_def write_cache_def read_only_files_def)
  have 2: "after_recomputation identity_pickle no_files ''train.txt_bert_10'' 0 (Inl ValueError) [h]
           = Inl ValueError"
    by (simp add: after_recomputation_def is_writer_def)
  from c 1 2 show ?thesis
    by (simp add: load_train_features_miss [OF r(1)] load_train_features_miss [OF r(2)])
qed

section \<open>Reconstructing the labels of an example\<close>

lemma token_to_orig_map_enumerate:
  "j < length os \<Longrightarrow>
   map_of (map (\<lambda>(token_index, orig_index). (token_index + 1, orig_index)) (List.enumerate n os))
     (Suc (n + j)) = Some (os ! j)"
proof (induction os arbitrary: n j)
  case Nil
  then show ?case by simp
next
  case (Cons a os)
  show ?case
  proof (cases j)
    case 0
    then show ?thesis by simp
  next
    case (Suc j')
    with Cons.prems Cons.IH [of j' "Suc n"] show ?thesis by simp
  qed
qed

lemma make_token_to_orig_map_nth:
  "j < length os \<Longrightarrow> make_token_to_orig_map os (Suc j) = Some (os ! j)"
  using token_to_orig_map_enumerate [of j os 0] by (simp add: make_token_to_orig_map_def)

lemma convert_ids_to_labels_append:
  "convert_ids_to_labels v xs = Inr a \<Longrightarrow> convert_ids_to_labels v ys = Inr b \<Longrightarrow>
   convert_ids_to_labels v (xs @ ys) = Inr (a @ b)"
  by (induction xs arbitrary: a) (auto split: if_splits sum.splits)

lemma convert_ids_to_labels_padding:
  "convert_ids_to_labels (build v) (replicate k 0) = Inr (replicate k ''O'')"
  by (induction k) (simp_all add: labels_build)

lemma convert_ids_to_labels_inverse:
  "convert_labels_to_ids (build v) ls = Inr ids \<Longrightarrow> convert_ids_to_labels (build v) ids = Inr ls"
proof (induction ls arbitrary: ids)
  case Nil
  then show ?case by simp
next
  case (Cons l ls)
  from Cons.prems obtain i ids' where
    d: "labels_dict (build v) l = Some i" and
    r: "convert_labels_to_ids (build v) ls = Inr ids'" and
    ids: "ids = i # ids'"
    by (auto split: option.splits sum.splits)
  from d have "i < length (labels (build v)) \<and> labels (build v) ! i = l"
    using invert_enumerate_Some [OF distinct_labels_build, of v l i]
    by (simp add: labels_dict_build)
  with Cons.IH [OF r] ids show ?case by simp
qed

lemma reconstruct_loop_tail_pieces:
  assumes "\<forall>j < length qs. tmap (p + j) = Some k"
    and "''[CLS]'' \<notin> set qs" and "''[SEP]'' \<notin> set qs"
  shows "reconstruct_loop tmap raw gold (List.enumerate p qs @ rest) (int k, pred, tr)
         = reconstruct_loop tmap raw gold rest (int k, pred, tr)"
  using assms
proof (induction qs arbitrary: p)
  case Nil
  then show ?case by simp
next
  case (Cons q qs)
  from Cons.prems(1) have here: "tmap p = Some k"
    by fastforce
  have "\<forall>j < length qs. tmap (Suc p + j) = Some k"
  proof (intro allI impI)
    fix j assume "j < length qs"
    then have "Suc j < length (q # qs)" by simp
    with Cons.prems(1) have "tmap (p + Suc j) = Some k" by blast
    then show "tmap (Suc p + j) = Some k" by simp
  qed
  with Cons.IH [of "Suc p"] Cons.prems(2,3)
  have "reconstruct_loop tmap raw gold (List.enumerate (Suc p) qs @ rest) (int k, pred, tr)
         = reconstruct_loop tmap raw gold rest (int k, pred, tr)"
    by simp
  with here Cons.prems(2,3) show ?case by simp
qed

lemma reconstruct_loop_word:
  assumes "ps \<noteq> []"
    and "\<forall>j < length ps. tmap (p + j) = Some k \<and> p + j < length raw \<and> raw ! (p + j) = l"
    and "''[CLS]'' \<notin> set ps" and "''[SEP]'' \<notin> set ps"
    and "k < length gold" and "gold ! k = l" and "last_i \<noteq> int k"
  shows "reconstruct_loop tmap raw gold (List.enumerate p ps @ rest) (last_i, pred, tr)
         = reconstruct_loop tmap raw gold rest (int k, pred @ [l], tr @ [l])"
proof -
  from assms(1) obtain q qs where ps: "ps = q # qs" by (cases ps) auto
  from assms(2) ps have here: "tmap p = Some k" "p < length raw" "raw ! p = l"
    by fastforce+
  have tail: "\<forall>j < length qs. tmap (Suc p + j) = Some k"
  proof (intro allI impI)
    fix j assume "j < length qs"
    then have "Suc j < length ps" by (simp add: ps)
    with assms(2) have "tmap (p + Suc j) = Some k" by blast
    then show "tmap (Suc p + j) = Some k" by simp
  qed
  from assms(3,4) ps have nm: "q \<noteq> ''[CLS]''" "q \<noteq> ''[SEP]''"
    "''[CLS]'' \<notin> set qs" "''[SEP]'' \<notin> set qs"
    by auto
  have "reconstruct_loop tmap raw gold (List.enumerate p ps @ rest) (last_i, pred, tr)
        = reconstruct_loop tmap raw gold (List.enumerate (Suc p) qs @ rest)
            (int k, pred @ [l], tr @ [l])"
    using here nm(1,2) assms(5,6,7) by (simp add: ps)
  also have "\<dots> = reconstruct_loop tmap raw gold rest (int k, pred @ [l], tr @ [l])"
    using tail nm(3,4) by (rule reconstruct_loop_tail_pieces)
  finally show ?thesis .
qed

lemma all_pieces_Cons: "all_pieces tk (w # ws) = tokenize tk w @ all_pieces tk ws"
  by (simp add: all_pieces_def)

lemma piece_origins_Cons:
  "piece_origins tk k (w # ws) = replicate (length (tokenize tk w)) k @ piece_origins tk (Suc k) ws"
  by (simp add: piece_origins_def)

lemma piece_labels_Cons:
  "piece_labels tk ((w, l) # wl) = replicate (length (tokenize tk w)) l @ piece_labels tk wl"
  by (simp add: piece_labels_def)

lemma reconstruct_loop_words:
  assumes "length ws = length ls"
    and "\<forall>w \<in> set ws. tokenize tk w \<noteq> [] \<and> ''[CLS]'' \<notin> set (tokenize tk w)
            \<and> ''[SEP]'' \<notin> set (tokenize tk w)"
    and "\<forall>j < length (all_pieces tk ws).
            tmap (p + j) = Some (piece_origins tk k ws ! j) \<and> p + j < length raw \<and>
            raw ! (p + j) = piece_labels tk (zip ws ls) ! j"
    and "\<forall>j < length ws. k + j < length gold \<and> gold ! (k + j) = ls ! j"
    and "last_i < int k"
  shows "\<exists>last'. reconstruct_loop tmap raw gold (List.enumerate p (all_pieces tk ws) @ rest)
                    (last_i, pred, tr)
                 = reconstruct_loop tmap raw gold rest (last', pred @ ls, tr @ ls)"
  using assms
proof (induction ws ls arbitrary: p k last_i pred tr rule: list_induct2)
  case Nil
  have "reconstruct_loop tmap raw gold (List.enumerate p (all_pieces tk []) @ rest) (last_i, pred, tr)
        = reconstruct_loop tmap raw gold rest (last_i, pred @ [], tr @ [])"
    by (simp add: all_pieces_def)
  then show ?case by blast
next
  case (Cons w ws l ls)
  let ?n = "length (tokenize tk w)"
  let ?A = "all_pieces tk ws"
  note a3 = Cons.prems(2) [unfolded all_pieces_Cons piece_origins_Cons zip_Cons_Cons piece_labels_Cons]
  have w: "tokenize tk w \<noteq> []" "''[CLS]'' \<notin> set (tokenize tk w)" "''[SEP]'' \<notin> set (tokenize tk w)"
    using Cons.prems(1) by simp_all
  have word: "\<forall>j < ?n. tmap (p + j) = Some k \<and> p + j < length raw \<and> raw ! (p + j) = l"
  proof (intro allI impI)
    fix j assume j: "j < ?n"
    then have "j < length (tokenize tk w @ ?A)" by simp
    with a3 have "tmap (p + j) = Some ((replicate ?n k @ piece_origins tk (Suc k) ws) ! j)
        \<and> p + j < length raw
        \<and> raw ! (p + j) = (replicate ?n l @ piece_labels tk (zip ws ls)) ! j"
      by blast
    with j show "tmap (p + j) = Some k \<and> p + j < length raw \<and> raw ! (p + j) = l"
      by (simp add: nth_append)
  qed
  have others: "\<forall>j < length ?A.
      tmap (p + ?n + j) = Some (piece_origins tk (Suc k) ws ! j) \<and> p + ?n + j < length raw \<and>
      raw ! (p + ?n + j) = piece_labels tk (zip ws ls) ! j"
  proof (intro allI impI)
    fix j assume j: "j < length ?A"
    then have "?n + j < length (tokenize tk w @ ?A)" by simp
    with a3 have "tmap (p + (?n + j)) = Some ((replicate ?n k @ piece_origins tk (Suc k) ws) ! (?n + j))
        \<and> p + (?n + j) < length raw
        \<and> raw ! (p + (?n + j)) = (replicate ?n l @ piece_labels tk (zip ws ls)) ! (?n + j)"
      by blast
    then show "tmap (p + ?n + j) = Some (piece_origins tk (Suc k) ws ! j) \<and> p + ?n + j < length raw \<and>
      raw ! (p + ?n + j) = piece_labels tk (zip ws ls) ! j"
      by (simp add: nth_append add.assoc)
  qed
  have g0: "k < length gold" "gold ! k = l"
    using Cons.prems(3) by fastforce+
  have gs: "\<forall>j < length ws. Suc k + j < length gold \<and> gold ! (Suc k + j) = ls ! j"
  proof (intro allI impI)
    fix j assume "j < length ws"
    then have "Suc j < length (w # ws)" by simp
    with Cons.prems(3) have "k + Suc j < length gold \<and> gold ! (k + Suc j) = (l # ls) ! Suc j"
      by blast
    then show "Suc k + j < length gold \<and> gold ! (Suc k + j) = ls ! j" by simp
  qed
  have ne: "last_i \<noteq> int k" using Cons.prems(4) by simp
  have rest_w: "\<forall>w \<in> set ws. tokenize tk w \<noteq> [] \<and> ''[CLS]'' \<notin> set (tokenize tk w)
            \<and> ''[SEP]'' \<notin> set (tokenize tk w)"
    using Cons.prems(1) by simp
  have lt: "int k < int (Suc k)" by simp
  have "reconstruct_loop tmap raw gold (List.enumerate p (all_pieces tk (w # ws)) @ rest)
          (last_i, pred, tr)
        = reconstruct_loop tmap raw gold
            (List.enumerate p (tokenize tk w) @ (List.enumerate (p + ?n) ?A @ rest))
            (last_i, pred, tr)"
    by (simp add: all_pieces_Cons enumerate_append_eq)
  also have "\<dots> = reconstruct_loop tmap raw gold (List.enumerate (p + ?n) ?A @ rest)
                    (int k, pred @ [l], tr @ [l])"
    using w(1) word w(2,3) g0 ne by (rule reconstruct_loop_word)
  finally have first: "reconstruct_loop tmap raw gold (List.enumerate p (all_pieces tk (w # ws)) @ rest)
          (last_i, pred, tr)
        = reconstruct_loop tmap raw gold (List.enumerate (p + ?n) ?A @ rest)
                    (int k, pred @ [l], tr @ [l])" .
  from Cons.IH [OF rest_w others gs lt, of "pred @ [l]" "tr @ [l]"]
  obtain last' where "reconstruct_loop tmap raw gold (List.enumerate (p + ?n) ?A @ rest)
                    (int k, pred @ [l], tr @ [l])
        = reconstruct_loop tmap raw gold rest (last', (pred @ [l]) @ ls, (tr @ [l]) @ ls)"
    by blast
  with first have "reconstruct_loop tmap raw gold (List.enumerate p (all_pieces tk (w # ws)) @ rest)
          (last_i, pred, tr)
        = reconstruct_loop tmap raw gold rest (last', pred @ l # ls, tr @ l # ls)"
    by simp
  then show ?case by blast
qed

lemma reconstruct_loop_framed:
  assumes "length ws = length ls"
    and "\<forall>w \<in> set ws. tokenize tk w \<noteq> [] \<and> ''[CLS]'' \<notin> set (tokenize tk w)
            \<and> ''[SEP]'' \<notin> set (tokenize tk w)"
    and "\<forall>j < length (all_pieces tk ws).
            tmap (Suc j) = Some (piece_origins tk 0 ws ! j) \<and> Suc j < length raw \<and>
            raw ! (Suc j) = piece_labels tk (zip ws ls) ! j"
  shows "reconstruct_loop tmap raw ls (List.enumerate 0 (framed (all_pieces tk ws))) (- 1, [], [])
         = Inr (ls, ls)"
proof -
  let ?A = "all_pieces tk ws"
  have e: "List.enumerate 0 (framed ?A)
        = (0, ''[CLS]'') # (List.enumerate 1 ?A @ [(1 + length ?A, ''[SEP]'')])"
    by (simp add: framed_def enumerate_append_eq)
  have a3: "\<forall>j < length ?A.
            tmap (1 + j) = Some (piece_origins tk 0 ws ! j) \<and> 1 + j < length raw \<and>
            raw ! (1 + j) = piece_labels tk (zip ws ls) ! j"
    using assms(3) by simp
  have a4: "\<forall>j < length ws. 0 + j < length ls \<and> ls ! (0 + j) = ls ! j"
    using assms(1) by simp
  have a5: "(- 1 :: int) < int 0" by simp
  from reconstruct_loop_words [OF assms(1,2) a3 a4 a5, of "[(1 + length ?A, ''[SEP]'')]" "[]" "[]"]
  obtain last' where
    "reconstruct_loop tmap raw ls (List.enumerate 1 ?A @ [(1 + length ?A, ''[SEP]'')]) (- 1, [], [])
     = reconstruct_loop tmap raw ls [(1 + length ?A, ''[SEP]'')] (last', [] @ ls, [] @ ls)"
    by blast
  then show ?thesis
    unfolding e by simp
qed

lemma convert_example_no_truncation:
  assumes c: "convert_example (build v) tk m uid idx ex = Inr f"
    and eq_len: "length (example_tokens ex) = length (example_labels ex)"
    and fits: "int (length (all_pieces tk (example_tokens ex))) \<le> m - 2"
  shows "\<exists>lids0 k.
           convert_labels_to_ids (build v)
             (''O'' # piece_labels tk (zip (example_tokens ex) (example_labels ex)) @ [''O''])
             = Inr lids0 \<and>
           tokens f = framed (all_pieces tk (example_tokens ex)) \<and>
           token_to_orig_map f = make_token_to_orig_map (piece_origins tk 0 (example_tokens ex)) \<and>
           label_ids f = Some (lids0 @ replicate k 0)"
proof -
  let ?ws = "example_tokens ex"
  let ?ls = "example_labels ex"
  have fst: "map fst (word_label_pairs ex) = ?ws"
    using eq_len by (simp add: word_label_pairs_def)
  have kp: "kept_pieces tk m ex = all_pieces tk ?ws"
    unfolding kept_pieces_def fst using fits by (rule slice_to_all)
  have "length (piece_labels tk (word_label_pairs ex)) = length (all_pieces tk ?ws)"
    using length_piece_labels [of tk "word_label_pairs ex"] by (simp only: fst)
  with fits have "int (length (piece_labels tk (word_label_pairs ex))) \<le> m - 2"
    by simp
  then have kl: "kept_labels tk m ex = piece_labels tk (zip ?ws ?ls)"
    unfolding kept_labels_def by (simp add: slice_to_all word_label_pairs_def)
  from c show ?thesis
    unfolding convert_example_eq kp kl fst
    by (auto split: sum.splits if_splits)
qed

text \<open>
  The round trip where no piece is a marker. Take a labeled example with one label per
  word, every word of which has at least one subword piece and no piece equal to
  \<open>[CLS]\<close> or \<open>[SEP]\<close>, and whose pieces number at most \<open>max_seq_length - 2\<close>.
  For logits whose row-wise argmax is the list of gold label ids of its feature, the walk of
  \<open>write_predictions\<close> returns the example's labels, in order and as many, both as the
  predicted and as the true labels, and logs no warning.
\<close>

lemma gold_labels_round_trip:
  assumes conv: "convert_examples_to_features v exs tk m = Inr (v', fs)"
    and i: "i < length exs"
    and eq_len: "length (example_tokens (exs ! i)) = length (example_labels (exs ! i))"
    and pieces: "\<forall>w \<in> set (example_tokens (exs ! i)).
                   tokenize tk w \<noteq> [] \<and> ''[CLS]'' \<notin> set (tokenize tk w)
                   \<and> ''[SEP]'' \<notin> set (tokenize tk w)"
    and fits: "int (length (all_pieces tk (example_tokens (exs ! i)))) \<le> m - 2"
    and gold: "label_ids (fs ! i) = Some lids"
    and logits: "argmax_rows logits = Inr lids"
  shows "reconstruct_example v' (exs ! i) (fs ! i) logits
         = Inr (example_labels (exs ! i), example_labels (exs ! i), False)"
proof -
  let ?ex = "exs ! i"
  let ?f = "fs ! i"
  let ?ws = "example_tokens ?ex"
  let ?ls = "example_labels ?ex"
  let ?A = "all_pieces tk ?ws"
  let ?L = "piece_labels tk (zip ?ws ?ls)"
  from conv have v': "v' = build v"
    and l: "features_loop (build v) tk m 1000000000 (List.enumerate 0 exs) = Inr fs"
    by (auto simp: convert_examples_to_features_def Let_def split: list.splits sum.splits)
  from features_loop_nth [OF l] i
  have c: "convert_example (build v) tk m (1000000000 + int i) (0 + i) ?ex = Inr ?f"
    by blast
  from convert_example_no_truncation [OF c eq_len fits] obtain lids0 k where
    l0: "convert_labels_to_ids (build v) (''O'' # ?L @ [''O'']) = Inr lids0" and
    toks: "tokens ?f = framed ?A" and
    tmap: "token_to_orig_map ?f = make_token_to_orig_map (piece_origins tk 0 ?ws)" and
    lf: "label_ids ?f = Some (lids0 @ replicate k 0)"
    by blast
  from gold lf have lids: "lids = lids0 @ replicate k 0" by simp
  let ?raw = "(''O'' # ?L @ [''O'']) @ replicate k ''O''"
  have raw: "convert_ids_to_labels (build v) lids = Inr ?raw"
    unfolding lids
    using convert_ids_to_labels_inverse [OF l0] convert_ids_to_labels_padding
    by (rule convert_ids_to_labels_append)
  have lenL: "length ?L = length ?A"
    using length_piece_labels [of tk "zip ?ws ?ls"] eq_len by simp
  have pos: "\<forall>j < length ?A.
      token_to_orig_map ?f (Suc j) = Some (piece_origins tk 0 ?ws ! j) \<and> Suc j < length ?raw \<and>
      ?raw ! (Suc j) = ?L ! j"
  proof (intro allI impI)
    fix j assume j: "j < length ?A"
    then have "j < length (piece_origins tk 0 ?ws)"
      by (simp add: length_piece_origins)
    then have 1: "token_to_orig_map ?f (Suc j) = Some (piece_origins tk 0 ?ws ! j)"
      unfolding tmap by (rule make_token_to_orig_map_nth)
    from j lenL have 2: "Suc j < length ?raw" by simp
    from j lenL have 3: "?raw ! (Suc j) = ?L ! j" by (simp add: nth_append)
    from 1 2 3 show "token_to_orig_map ?f (Suc j) = Some (piece_origins tk 0 ?ws ! j)
        \<and> Suc j < length ?raw \<and> ?raw ! (Suc j) = ?L ! j"
      by blast
  qed
  have walk: "reconstruct_loop (token_to_orig_map ?f) ?raw ?ls (List.enumerate 0 (tokens ?f)) (- 1, [], [])
        = Inr (?ls, ?ls)"
    unfolding toks using eq_len pieces pos by (rule reconstruct_loop_framed)
  show ?thesis
    unfolding reconstruct_example_def v'
    unfolding logits sum.case
    unfolding raw sum.case
    unfolding walk sum.case prod.case
    by simp
qed

lemma gold_labels_round_trip_on_John:
  "\<exists>w h. convert_examples_to_features John_vocab [John_example] one_piece_tokenizer 10 = Inr (w, [h])
     \<and> label_ids h = Some [0, 2, 0, 0, 1, 0, 0, 0, 0, 0]
     \<and> argmax_rows John_logits = Inr [0, 2, 0, 0, 1, 0, 0, 0, 0, 0]
     \<and> reconstruct_example w John_example h John_logits
         = Inr ([''B-PER'', ''O'', ''O'', ''B-LOC''], [''B-PER'', ''O'', ''O'', ''B-LOC''], False)"
proof -
  from John_converts obtain w h where
    c: "convert_examples_to_features John_vocab [John_example] one_piece_tokenizer 10 = Inr (w, [h])"
    by blast
  from c John_label_ids have g: "label_ids ([h] ! 0) = Some [0, 2, 0, 0, 1, 0, 0, 0, 0, 0]"
    by (simp add: converted_label_ids_def)
  have i: "0 < length [John_example]" by simp
  have e: "length (example_tokens ([John_example] ! 0)) = length (example_labels ([John_example] ! 0))"
    by (simp add: John_example_def)
  have p: "\<forall>w \<in> set (example_tokens ([John_example] ! 0)).
             tokenize one_piece_tokenizer w \<noteq> [] \<and> ''[CLS]'' \<notin> set (tokenize one_piece_tokenizer w)
             \<and> ''[SEP]'' \<notin> set (tokenize one_piece_tokenizer w)"
    by (simp add: John_example_def one_piece_tokenizer_def)
  have f: "int (length (all_pieces one_piece_tokenizer (example_tokens ([John_example] ! 0)))) \<le> 10 - 2"
    by (simp add: John_example_def one_piece_tokenizer_def all_pieces_def)
  from gold_labels_round_trip [OF c i e p f g John_argmax]
  have "reconstruct_example w John_example h John_logits
         = Inr ([''B-PER'', ''O'', ''O'', ''B-LOC''], [''B-PER'', ''O'', ''O'', ''B-LOC''], False)"
    by (simp add: John_example_def)
  with c g John_argmax show ?thesis by auto
qed

text \<open>
  Claim C2. For a labeled example whose full subword sequence has length at most
  \<open>max_seq_length - 2\<close>, the walk of \<open>write_predictions\<close> over logits that encode the
  gold label ids of its feature should return the example's label sequence, in order and
  of equal length. The code does not at a word that is itself a marker. The one-word
  sentence \<open>[SEP]\<close> with the label \<open>B-PER\<close> has one label per word and one piece, and
  fits in 10 positions. The conversion keeps that piece as a word piece: position 1 maps to
  word 0 and carries the id of \<open>B-PER\<close>. The walk tests the token string, takes the piece
  for the end marker and skips it: no label is returned, the length differs from the
  example's, and the warning about an example exceeding the maximum sequence length is
  logged.
\<close>

theorem marker_word_round_trip_fails:
  "length (example_tokens marker_example) = length (example_labels marker_example) \<and>
   int (length (all_pieces one_piece_tokenizer (example_tokens marker_example))) \<le> 10 - 2 \<and>
   example_labels marker_example = [''B-PER''] \<and>
   converted_orig_maps marker_vocab [marker_example] one_piece_tokenizer 10
     = Inr [[None, Some 0, None]] \<and>
   converted_label_ids marker_vocab [marker_example] one_piece_tokenizer 10
     = Inr [Some [0, 1, 0, 0, 0, 0, 0, 0, 0, 0]] \<and>
   round_trip marker_vocab marker_example one_piece_tokenizer 10 = Inr ([], [], True)"
  by code_simp

end
